theory Spec2Isabelle
  imports Complex_Main "HOL-Library.Multiset"
begin

section \<open>The hint renderer of LinkHints (RendererProgram)\<close>

text \<open>
  A shallow embedding of \<^verbatim>\<open>RendererProgram\<close> (src/unnamed/part_000): the program
  object, the part of the DOM it owns and the browser facilities it calls are one
  record that every method takes and returns. DOM elements are handles into a store,
  because the program keeps several references to the same element (the hints array,
  the keys of the rectangle cache, the children of the shadow root).

  A JavaScript number is the rational it denotes. The engine computes \<^verbatim>\<open>a + b\<close>,
  \<^verbatim>\<open>a - b\<close>, \<^verbatim>\<open>a * b\<close> and \<^verbatim>\<open>a / b\<close> as the exact result rounded to the nearest
  number it can represent; that rounding is the field \<open>number\<close> of the browser, and
  every arithmetic operation of the source is written \<open>number B (...)\<close> around the
  exact operation. Nothing is assumed about it. Comparisons, the unary minus,
  \<^verbatim>\<open>Math.round\<close> and \<^verbatim>\<open>Math.ceil\<close> are exact on the numbers they are given.
  Infinities and NaN are left out.
\<close>

subsection \<open>Constants\<close>

definition MAX_IMMEDIATE_HINT_MOVEMENTS :: nat where
  "MAX_IMMEDIATE_HINT_MOVEMENTS = 50"

definition MAX_Z_INDEX :: int where
  "MAX_Z_INDEX = 2147483647"

definition Math_round :: "rat \<Rightarrow> int" where
  "Math_round x = \<lfloor>x + 1 / 2\<rfloor>"

definition Math_ceil :: "rat \<Rightarrow> int" where
  "Math_ceil x = \<lceil>x\<rceil>"

subsection \<open>Data\<close>

type_synonym node_id = nat
type_synonym timer_id = nat

text \<open>A \<^verbatim>\<open>ClientRect\<close>, with the six properties the program reads.\<close>

record rect =
  rect_left :: rat
  rect_top :: rat
  rect_right :: rat
  rect_bottom :: rat
  rect_width :: rat
  rect_height :: rat

record viewport =
  vp_width :: rat
  vp_height :: rat

record box =
  box_x :: rat
  box_y :: rat
  box_width :: rat
  box_height :: rat

datatype align = AlignLeft | AlignRight

record hint_measurements =
  hm_x :: rat
  hm_y :: rat
  hm_align :: align
  hm_maxX :: rat

record element_with_hint =
  hintMeasurements :: hint_measurements
  hint :: string

datatype hint_update =
    Hide int
  | Update int string string bool

fun update_index :: "hint_update \<Rightarrow> int" where
  "update_index (Hide i) = i"
| "update_index (Update i matchedChars restChars highlighted) = i"

fun is_Hide :: "hint_update \<Rightarrow> bool" where
  "is_Hide (Hide i) = True"
| "is_Hide (Update i matchedChars restChars highlighted) = False"

text \<open>
  A hint element: its child nodes, the two classes the program toggles, and the inline
  style properties the program writes with \<^verbatim>\<open>setStyles\<close>. A property that is not set
  (or was set to the empty string) is \<open>None\<close>; lengths are whole pixels, as every
  value the program writes is \<^verbatim>\<open>Math.round(...)\<close> followed by \<^verbatim>\<open>px\<close>.
\<close>

datatype child_node = TextNode string | MatchedCharsSpan string

record hint_element =
  childNodes :: "child_node list"
  hiddenClass :: bool
  highlightedClass :: bool
  style_left :: "int option"
  style_right :: "int option"
  style_top :: "int option"
  style_zIndex :: "int option"
  style_marginRight :: "int option"
  style_marginTop :: "int option"

definition createHintElement :: "string \<Rightarrow> hint_element" where
  "createHintElement h =
     \<lparr>childNodes = [TextNode h], hiddenClass = False, highlightedClass = False,
      style_left = None, style_right = None, style_top = None, style_zIndex = None,
      style_marginRight = None, style_marginTop = None\<rparr>"

text \<open>\<^verbatim>\<open>Number(element.style.zIndex)\<close>: the empty string is 0.\<close>

definition zIndexNumber :: "hint_element \<Rightarrow> int" where
  "zIndexNumber n = (case style_zIndex n of None \<Rightarrow> 0 | Some z \<Rightarrow> z)"

datatype root_child =
    StyleSheet
  | HintNode node_id
  | Shruggie
  | Title
  | TextRect int box

datatype container_ref = OwnContainer | StrayContainer nat

datatype timer_callback = UnrenderDelayedCallback | UnrenderToTitleCallback

datatype from_renderer = RendererScriptAdded | Rendered

text \<open>
  What the browser answers when asked: the bounding rectangle of a hint element in its
  current state, the viewport, whether the page's CSP blocked the injected
  stylesheet (\<^verbatim>\<open>BROWSER === "firefox" && style.sheet == null\<close>), and the rounding
  of its arithmetic.
\<close>

record browser =
  getBoundingClientRect :: "hint_element \<Rightarrow> rect"
  getViewport :: viewport
  styleBlocked :: bool
  number :: "rat \<Rightarrow> rat"

record renderer =
  hints :: "node_id list"
  rects :: "node_id \<Rightarrow> rect option"
  unrenderTimeoutId :: "timer_id option"
  enteredTextChars :: string
  parsedCSS :: bool
  listening :: bool
  titleText :: string
  rootChildren :: "root_child list"
  containerResets :: bool
  observing :: bool
  nodes :: "node_id \<Rightarrow> hint_element"
  nextNode :: node_id
  documentElement :: bool
  documentContainers :: "container_ref list"
  timers :: "(timer_id \<times> timer_callback) list"
  nextTimer :: timer_id
  sent :: "from_renderer list"
  errorLog :: "hint_update list"

text \<open>
  \<open>parsedCSS\<close> is whether \<^verbatim>\<open>this.parsedCSS\<close> is non-null; \<open>listening\<close> whether
  \<^verbatim>\<open>this.resets\<close> holds the message listener; \<open>containerResets\<close> whether the resize
  listeners are registered; \<open>documentElement\<close> whether the document has a root element;
  \<open>documentContainers\<close> the elements of the document that match
  \<^verbatim>\<open>#__SynthWebExt\<close>; \<open>timers\<close> the timeouts the browser still holds;
  \<open>errorLog\<close> the updates reported by \<^verbatim>\<open>log("error", ...)\<close>.
\<close>

definition constructor :: "bool \<Rightarrow> container_ref list \<Rightarrow> renderer" where
  "constructor hasRoot containers =
     \<lparr>hints = [], rects = Map.empty, unrenderTimeoutId = None, enteredTextChars = [],
      parsedCSS = False, listening = False, titleText = [], rootChildren = [],
      containerResets = False, observing = False,
      nodes = (\<lambda>_. createHintElement []), nextNode = 0,
      documentElement = hasRoot, documentContainers = containers,
      timers = [], nextTimer = 0, sent = [], errorLog = []\<rparr>"

subsection \<open>DOM helpers\<close>

definition updateNode :: "node_id \<Rightarrow> (hint_element \<Rightarrow> hint_element) \<Rightarrow> renderer \<Rightarrow> renderer" where
  "updateNode e f s = s\<lparr>nodes := (nodes s)(e := f (nodes s e))\<rparr>"

text \<open>\<^verbatim>\<open>root.append(child)\<close> for a node with an identity: it moves when already there.\<close>

definition rootAppend :: "root_child \<Rightarrow> renderer \<Rightarrow> renderer" where
  "rootAppend c s = s\<lparr>rootChildren := filter (\<lambda>x. x \<noteq> c) (rootChildren s) @ [c]\<rparr>"

definition rootRemove :: "root_child \<Rightarrow> renderer \<Rightarrow> renderer" where
  "rootRemove c s = s\<lparr>rootChildren := filter (\<lambda>x. x \<noteq> c) (rootChildren s)\<rparr>"

definition insertShruggie :: "renderer \<Rightarrow> renderer" where
  "insertShruggie s = rootAppend Shruggie s"

definition removeShruggie :: "renderer \<Rightarrow> renderer" where
  "removeShruggie s = rootRemove Shruggie s"

definition insertTitle :: "string \<Rightarrow> renderer \<Rightarrow> renderer" where
  "insertTitle title s = rootAppend Title (s\<lparr>titleText := title\<rparr>)"

definition removeTitle :: "renderer \<Rightarrow> renderer" where
  "removeTitle s = rootRemove Title s"

fun matchesTextRect :: "int option \<Rightarrow> root_child \<Rightarrow> bool" where
  "matchesTextRect None (TextRect f b) = True"
| "matchesTextRect (Some frameId) (TextRect f b) = (f = frameId)"
| "matchesTextRect frameId c = False"

definition unrenderTextRects :: "int option \<Rightarrow> renderer \<Rightarrow> renderer" where
  "unrenderTextRects frameId s =
     s\<lparr>rootChildren := filter (\<lambda>c. \<not> matchesTextRect frameId c) (rootChildren s)\<rparr>"

definition renderTextRects :: "box list \<Rightarrow> int \<Rightarrow> renderer \<Rightarrow> renderer" where
  "renderTextRects boxes frameId s =
     s\<lparr>rootChildren := rootChildren s @ map (TextRect frameId) boxes\<rparr>"

subsection \<open>Timers\<close>

definition clearTimeout :: "timer_id \<Rightarrow> renderer \<Rightarrow> renderer" where
  "clearTimeout t s = s\<lparr>timers := filter (\<lambda>p. fst p \<noteq> t) (timers s)\<rparr>"

definition setTimeout :: "timer_callback \<Rightarrow> renderer \<Rightarrow> timer_id \<times> renderer" where
  "setTimeout cb s =
     (nextTimer s, s\<lparr>timers := timers s @ [(nextTimer s, cb)], nextTimer := Suc (nextTimer s)\<rparr>)"

subsection \<open>Teardown\<close>

definition unrender :: "renderer \<Rightarrow> renderer" where
  "unrender s =
     (let s1 = (case unrenderTimeoutId s of
                  None \<Rightarrow> s
                | Some t \<Rightarrow> (clearTimeout t s)\<lparr>unrenderTimeoutId := None\<rparr>);
          s2 = s1\<lparr>hints := [], rects := Map.empty\<rparr>;
          s3 = s2\<lparr>documentContainers := filter (\<lambda>c. c \<noteq> OwnContainer) (documentContainers s2)\<rparr>;
          s4 = s3\<lparr>rootChildren := [], containerResets := False, observing := False\<rparr>
      in s4\<lparr>documentContainers := []\<rparr>)"

definition unrenderDelayed :: "renderer \<Rightarrow> renderer" where
  "unrenderDelayed s =
     (if unrenderTimeoutId s \<noteq> None then s
      else (case setTimeout UnrenderDelayedCallback s of
              (t, s1) \<Rightarrow> s1\<lparr>unrenderTimeoutId := Some t\<rparr>))"

definition unrenderToTitle :: "string \<Rightarrow> renderer \<Rightarrow> renderer" where
  "unrenderToTitle title s =
     (let s1 = (case unrenderTimeoutId s of None \<Rightarrow> s | Some t \<Rightarrow> clearTimeout t s);
          s2 = insertTitle title s1
      in (case setTimeout UnrenderToTitleCallback s2 of
            (t, s3) \<Rightarrow> s3\<lparr>unrenderTimeoutId := Some t\<rparr>))"

text \<open>The two timeout callbacks, and the browser running a timeout that is due.\<close>

fun runCallback :: "timer_callback \<Rightarrow> renderer \<Rightarrow> renderer" where
  "runCallback UnrenderDelayedCallback s = unrender (s\<lparr>unrenderTimeoutId := None\<rparr>)"
| "runCallback UnrenderToTitleCallback s =
     (let s1 = s\<lparr>unrenderTimeoutId := None\<rparr>;
          s2 = fold (\<lambda>e. rootRemove (HintNode e)) (hints s1) s1;
          s3 = unrenderTextRects None s2
      in s3\<lparr>hints := [], rects := Map.empty\<rparr>)"

definition timerFires :: "timer_id \<Rightarrow> renderer \<Rightarrow> renderer" where
  "timerFires t s =
     (case map_of (timers s) t of
        None \<Rightarrow> s
      | Some cb \<Rightarrow> runCallback cb (clearTimeout t s))"

subsection \<open>Moving hints inside the viewport\<close>

definition moveInsideViewport_body ::
  "browser \<Rightarrow> viewport \<Rightarrow> node_id \<Rightarrow> bool \<times> renderer \<Rightarrow> bool \<times> renderer" where
  "moveInsideViewport_body B viewport element ms =
     (let moved = fst ms; s = snd ms;
          rect = getBoundingClientRect B (nodes s element);
          s = s\<lparr>rects := (rects s)(element \<mapsto> rect)\<rparr>;
          (moved, s) =
            (if rect_left rect < 0
             then (True, updateNode element
                     (\<lambda>n. n\<lparr>style_marginRight := Some (Math_round (rect_left rect))\<rparr>) s)
             else (moved, s));
          (moved, s) =
            (if rect_top rect < 0
             then (True, updateNode element
                     (\<lambda>n. n\<lparr>style_marginTop := Some (Math_round (- rect_top rect))\<rparr>) s)
             else (moved, s));
          (moved, s) =
            (if rect_right rect > vp_width viewport
             then (True, updateNode element
                     (\<lambda>n. n\<lparr>style_marginRight :=
                              Some (Math_round (number B (rect_right rect - vp_width viewport)))\<rparr>) s)
             else (moved, s));
          (moved, s) =
            (if rect_bottom rect > vp_height viewport
             then (True, updateNode element
                     (\<lambda>n. n\<lparr>style_marginTop :=
                              Some (Math_round (number B (vp_height viewport - rect_bottom rect)))\<rparr>) s)
             else (moved, s))
      in (moved, s))"

definition moveInsideViewport ::
  "browser \<Rightarrow> node_id list \<Rightarrow> viewport \<Rightarrow> renderer \<Rightarrow> bool \<times> renderer" where
  "moveInsideViewport B elements viewport s =
     fold (moveInsideViewport_body B viewport) elements (False, s)"

subsection \<open>Overlap stacks\<close>

definition overlaps :: "rect \<Rightarrow> rect \<Rightarrow> bool" where
  "overlaps rectA rectB \<longleftrightarrow>
     rect_right rectA \<ge> rect_left rectB \<and>
     rect_left rectA \<le> rect_right rectB \<and>
     rect_bottom rectA \<ge> rect_top rectB \<and>
     rect_top rectA \<le> rect_bottom rectB"

text \<open>\<^verbatim>\<open>elements.splice(index, 1)\<close>\<close>

definition splice1 :: "nat \<Rightarrow> 'a list \<Rightarrow> 'a list" where
  "splice1 i xs = take i xs @ drop (Suc i) xs"

text \<open>\<^verbatim>\<open>rects.get(element) || element.getBoundingClientRect()\<close>\<close>

definition rectFor :: "(hint_element \<Rightarrow> rect) \<Rightarrow> renderer \<Rightarrow> node_id \<Rightarrow> rect" where
  "rectFor L s e = (case rects s e of Some r \<Rightarrow> r | None \<Rightarrow> L (nodes s e))"

text \<open>
  The loop of \<^verbatim>\<open>getStackFor\<close>. The array \<^verbatim>\<open>elements\<close> is shared with the recursive
  call, which splices elements out of it; the caller goes on with its own \<^verbatim>\<open>index\<close>
  in the array as the callee left it. The function returns the stack and the array.
\<close>

function getStackFor_loop ::
  "(node_id \<Rightarrow> rect) \<Rightarrow> node_id \<Rightarrow> nat \<Rightarrow> node_id list \<Rightarrow> node_id list
     \<Rightarrow> node_id list \<times> node_id list" where
  "getStackFor_loop R element index elements stack =
     (if index < length elements then
        (let nextElement = elements ! index in
         if overlaps (R nextElement) (R element) then
           (case getStackFor_loop R nextElement 0 (splice1 index elements) [nextElement] of
              (sub, elements') \<Rightarrow> getStackFor_loop R element index elements' (stack @ sub))
         else getStackFor_loop R element (index + 1) elements stack)
      else (stack, elements))"
  by pat_completeness auto

termination getStackFor_loop
proof -
  have shorter: "length (snd (getStackFor_loop R e i es st)) \<le> length es"
    if "getStackFor_loop_dom (R, e, i, es, st)" for R e i es st
    using that
  proof (induct rule: getStackFor_loop.pinduct)
    case (1 R element index elements stack)
    show ?case
    proof (cases "index < length elements")
      case False
      then show ?thesis using 1(1) by (simp add: getStackFor_loop.psimps)
    next
      case True
      show ?thesis
      proof (cases "overlaps (R (elements ! index)) (R element)")
        case False
        then show ?thesis using True 1(1) 1(4)
          by (simp add: getStackFor_loop.psimps)
      next
        case ov: True
        obtain sub els where
          r: "getStackFor_loop R (elements ! index) 0 (splice1 index elements) [elements ! index]
                = (sub, els)"
          by (cases "getStackFor_loop R (elements ! index) 0 (splice1 index elements)
                       [elements ! index]")
        have a: "length els \<le> length (splice1 index elements)"
          using 1(2)[OF True refl ov] r by simp
        have b: "length (snd (getStackFor_loop R element index els (stack @ sub))) \<le> length els"
          using 1(3)[OF True refl ov r[symmetric]] .
        have c: "length (splice1 index elements) < length elements"
          using True by (simp add: splice1_def)
        show ?thesis using True ov r a b c 1(1)
          by (simp add: getStackFor_loop.psimps)
      qed
    qed
  qed
  show ?thesis
  proof (relation "measures [\<lambda>(R, e, i, es, st). length es, \<lambda>(R, e, i, es, st). length es - i]",
      goal_cases)
    case 1
    then show ?case by simp
  next
    case 2
    then show ?case by (auto simp: splice1_def)
  next
    case (3 R element index elements stack x xa y)
    have "length y \<le> length (splice1 index elements)"
      using shorter[of R x 0 "splice1 index elements" "[x]"] 3
      by (metis snd_conv)
    then show ?case using 3(1) by (auto simp: splice1_def)
  next
    case 4
    then show ?case by auto
  qed
qed

declare getStackFor_loop.simps [simp del]

definition getStackFor :: "(node_id \<Rightarrow> rect) \<Rightarrow> node_id \<Rightarrow> node_id list \<Rightarrow> node_id list \<times> node_id list" where
  "getStackFor R element elements = getStackFor_loop R element 0 elements [element]"

text \<open>
  \<^verbatim>\<open>getStacks\<close>: pop the last element of the copy and collect its stack, until the
  copy is empty.
\<close>

function getStacks_loop :: "(node_id \<Rightarrow> rect) \<Rightarrow> node_id list \<Rightarrow> node_id list list \<Rightarrow> node_id list list" where
  "getStacks_loop R elements stacks =
     (if length elements > 0 then
        (case getStackFor R (last elements) (butlast elements) of
           (stack, elements') \<Rightarrow> getStacks_loop R elements' (stacks @ [stack]))
      else stacks)"
  by pat_completeness auto

termination getStacks_loop
proof -
  have shorter: "length (snd (getStackFor_loop R e i es st)) \<le> length es" for R e i es st
  proof (induct R e i es st rule: getStackFor_loop.induct)
    case (1 R element index elements stack)
    show ?case
    proof (cases "index < length elements")
      case False
      then show ?thesis by (simp add: getStackFor_loop.simps[of R element index elements stack])
    next
      case True
      show ?thesis
      proof (cases "overlaps (R (elements ! index)) (R element)")
        case False
        then show ?thesis using True 1(3)
          by (simp add: getStackFor_loop.simps[of R element index elements stack])
      next
        case ov: True
        obtain sub els where
          r: "getStackFor_loop R (elements ! index) 0 (splice1 index elements) [elements ! index]
                = (sub, els)"
          by (cases "getStackFor_loop R (elements ! index) 0 (splice1 index elements)
                       [elements ! index]")
        have a: "length els \<le> length (splice1 index elements)"
          using 1(1)[OF True refl ov] r by simp
        have b: "length (snd (getStackFor_loop R element index els (stack @ sub))) \<le> length els"
          using 1(2)[OF True refl ov r[symmetric]] .
        have c: "length (splice1 index elements) < length elements"
          using True by (simp add: splice1_def)
        show ?thesis using True ov r a b c
          by (simp add: getStackFor_loop.simps[of R element index elements stack])
      qed
    qed
  qed
  show ?thesis
  proof (relation "measure (\<lambda>(R, es, sts). length es)", goal_cases)
    case 1
    then show ?case by simp
  next
    case (2 R elements stacks x xa)
    have "length xa \<le> length (butlast elements)"
      using shorter[of R "last elements" 0 "butlast elements" "[last elements]"] 2
      by (metis snd_conv getStackFor_def)
    moreover have "length (butlast elements) = length elements - 1" by simp
    moreover have "0 < length elements" using 2(1) by simp
    ultimately have "length xa < length elements" by linarith
    then show ?case by simp
  qed
qed

declare getStacks_loop.simps [simp del]

definition getStacks :: "(node_id \<Rightarrow> rect) \<Rightarrow> node_id list \<Rightarrow> node_id list list" where
  "getStacks R originalElements = getStacks_loop R originalElements []"

subsection \<open>Rotating the stacking order\<close>

definition rotateStack :: "int \<Rightarrow> node_id list \<Rightarrow> renderer \<Rightarrow> renderer" where
  "rotateStack sign stack s =
     (if length stack \<ge> 2 then
        (let sorted = sort_key (\<lambda>e. zIndexNumber (nodes s e) * sign) stack;
             zs = map (\<lambda>e. style_zIndex (nodes s e)) sorted;
             zIndexes = (case zs of [] \<Rightarrow> [] | first # rest \<Rightarrow> rest @ [first])
         in fold (\<lambda>(element, z). updateNode element (\<lambda>n. n\<lparr>style_zIndex := z\<rparr>))
              (zip sorted zIndexes) s)
      else s)"

definition rotateHints :: "(hint_element \<Rightarrow> rect) \<Rightarrow> bool \<Rightarrow> renderer \<Rightarrow> renderer" where
  "rotateHints L forward s =
     (let sign = (if forward then 1 else 1);
          stacks = getStacks (rectFor L s) (hints s)
      in fold (rotateStack sign) stacks s)"

subsection \<open>Rendering\<close>

text \<open>
  One turn of the loop of \<^verbatim>\<open>render\<close>, on the program state and the three loop
  variables \<^verbatim>\<open>edgeElements\<close>, \<^verbatim>\<open>restElements\<close> and \<^verbatim>\<open>numEdgeElements\<close>.
  \<^verbatim>\<open>createHintElement\<close> allocates the next handle of the store.
\<close>

definition render_body ::
  "(rat \<Rightarrow> rat) \<Rightarrow> viewport \<Rightarrow> int \<Rightarrow> rat \<Rightarrow> rat \<Rightarrow> nat \<Rightarrow> element_with_hint
     \<Rightarrow> renderer \<times> node_id list \<times> node_id list \<times> nat
     \<Rightarrow> renderer \<times> node_id list \<times> node_id list \<times> nat" where
  "render_body N viewport halfHeight widthK widthM index ewh acc =
     (case acc of (s, edgeElements, restElements, numEdgeElements) \<Rightarrow>
        (let hm = hintMeasurements ewh;
             element = nextNode s;
             s = s\<lparr>nodes := (nodes s)(element := createHintElement (hint ewh)),
                   nextNode := Suc element\<rparr>;
             width = Math_ceil (N (widthM + N (widthK * of_nat (length (hint ewh)))));
             alignLeft = (hm_align hm = AlignLeft \<and> N (hm_x hm + of_int width) < hm_maxX hm);
             s = updateNode element
                   (\<lambda>n. n\<lparr>style_left := (if alignLeft then Some (Math_round (hm_x hm)) else None),
                           style_right := (if alignLeft then None
                                           else Some (Math_round (N (vp_width viewport - hm_x hm)))),
                           style_top := Some (Math_round (hm_y hm)),
                           style_zIndex := Some (MAX_Z_INDEX - int index)\<rparr>) s;
             s = rootAppend (HintNode element) s;
             s = s\<lparr>hints := hints s @ [element]\<rparr>;
             outsideHorizontally =
               (if hm_align hm = AlignLeft
                then N (vp_width viewport - hm_x hm) \<le> of_int width
                else hm_x hm \<le> of_int width);
             outsideVertically =
               (hm_y hm \<le> of_int halfHeight \<or> N (vp_height viewport - hm_y hm) \<le> of_int halfHeight)
         in if numEdgeElements < MAX_IMMEDIATE_HINT_MOVEMENTS
                \<and> (outsideHorizontally \<or> outsideVertically)
            then (s, edgeElements @ [element], restElements, length (edgeElements @ [element]))
            else (s, edgeElements, restElements @ [element], numEdgeElements)))"

fun render_loop ::
  "(rat \<Rightarrow> rat) \<Rightarrow> viewport \<Rightarrow> int \<Rightarrow> rat \<Rightarrow> rat \<Rightarrow> nat \<Rightarrow> element_with_hint list
     \<Rightarrow> renderer \<times> node_id list \<times> node_id list \<times> nat
     \<Rightarrow> renderer \<times> node_id list \<times> node_id list \<times> nat" where
  "render_loop N viewport halfHeight widthK widthM index [] acc = acc"
| "render_loop N viewport halfHeight widthK widthM index (ewh # rest) acc =
     render_loop N viewport halfHeight widthK widthM (Suc index) rest
       (render_body N viewport halfHeight widthK widthM index ewh acc)"

text \<open>
  \<^verbatim>\<open>render\<close>. The two \<^verbatim>\<open>await waitForPaint()\<close> are points where the function
  yields; here it runs to its end in one piece. The styles of the container itself
  (\<^verbatim>\<open>updateContainer\<close>) and the timing report are left out; the two probes are
  appended and removed again before anything else happens, so only their
  measurement is kept. \<^verbatim>\<open>maybeApplyStyles\<close> changes how the browser lays an
  element out and nothing that the program stores: it is part of what
  \<open>getBoundingClientRect\<close> answers.
\<close>

definition render :: "browser \<Rightarrow> element_with_hint list \<Rightarrow> renderer \<Rightarrow> renderer" where
  "render B elements s =
     (if \<not> documentElement s then s
      else
        (let L = getBoundingClientRect B;
             N = number B;
             s = unrender s;
             viewport = getViewport B;
             s = (if \<not> parsedCSS s then
                    (let s = s\<lparr>rootChildren := rootChildren s @ [StyleSheet]\<rparr>
                     in if styleBlocked B then s\<lparr>parsedCSS := True\<rparr> else s)
                  else s);
             s = s\<lparr>documentContainers :=
                     filter (\<lambda>c. c \<noteq> OwnContainer) (documentContainers s) @ [OwnContainer]\<rparr>;
             s = s\<lparr>observing := True, containerResets := True\<rparr>
         in if length elements = 0 then insertShruggie s
            else
              (let rect1 = L (createHintElement ''W'');
                   rect2 = L (createHintElement ''WW'');
                   halfHeight = Math_ceil (N (rect_height rect1 / 2));
                   widthK = N (rect_width rect2 - rect_width rect1);
                   widthM = N (rect_width rect1 - widthK)
               in (case render_loop N viewport halfHeight widthK widthM 0 elements (s, [], [], 0) of
                     (s, edgeElements, restElements, numEdgeElements) \<Rightarrow>
                       (let s = (if numEdgeElements > 0
                                 then snd (moveInsideViewport B edgeElements viewport s)
                                 else s);
                            (moved, s) = moveInsideViewport B restElements viewport s
                        in s\<lparr>sent := sent s @ [Rendered]\<rparr>)))))"

subsection \<open>Updating hints\<close>

text \<open>\<^verbatim>\<open>this.hints[update.index]\<close>: undefined outside the array.\<close>

definition hintAt :: "renderer \<Rightarrow> int \<Rightarrow> node_id option" where
  "hintAt s i = (if 0 \<le> i \<and> i < int (length (hints s)) then Some (hints s ! nat i) else None)"

text \<open>\<^verbatim>\<open>enteredTextChars.replace(/\s/g, nbsp)\<close>, on the one-byte whitespace characters.\<close>

definition isWhitespace :: "char \<Rightarrow> bool" where
  "isWhitespace c \<longleftrightarrow> c \<in> set [CHR 0x09, CHR 0x0A, CHR 0x0B, CHR 0x0C, CHR 0x0D, CHR 0x20, CHR 0xA0]"

definition replaceWhitespace :: "string \<Rightarrow> string" where
  "replaceWhitespace cs = map (\<lambda>c. if isWhitespace c then CHR 0xA0 else c) cs"

definition updateHints_body ::
  "string \<Rightarrow> hint_update \<Rightarrow> nat \<times> node_id list \<times> renderer \<Rightarrow> nat \<times> node_id list \<times> renderer" where
  "updateHints_body newText update acc =
     (case acc of (numHidden, maybeNeedsMoveInsideViewport, s) \<Rightarrow>
        (case hintAt s (update_index update) of
           None \<Rightarrow> (numHidden, maybeNeedsMoveInsideViewport, s\<lparr>errorLog := errorLog s @ [update]\<rparr>)
         | Some child \<Rightarrow>
             (let s = updateNode child (\<lambda>n. n\<lparr>hiddenClass := is_Hide update\<rparr>) s
              in (case update of
                    Hide i \<Rightarrow> (numHidden + 1, maybeNeedsMoveInsideViewport, s)
                  | Update i matchedChars restChars highlighted \<Rightarrow>
                      (let s = updateNode child (\<lambda>n. n\<lparr>childNodes := []\<rparr>) s;
                           (s, maybeNeedsMoveInsideViewport) =
                             (if matchedChars \<noteq> [] then
                                (updateNode child
                                   (\<lambda>n. n\<lparr>childNodes := childNodes n @ [MatchedCharsSpan matchedChars]\<rparr>) s,
                                 maybeNeedsMoveInsideViewport)
                              else if newText \<noteq> enteredTextChars s then
                                (updateNode child
                                   (\<lambda>n. n\<lparr>style_marginRight := None, style_marginTop := None\<rparr>) s,
                                 maybeNeedsMoveInsideViewport @ [child])
                              else (s, maybeNeedsMoveInsideViewport));
                           s = updateNode child (\<lambda>n. n\<lparr>highlightedClass := highlighted\<rparr>) s;
                           s = updateNode child (\<lambda>n. n\<lparr>childNodes := childNodes n @ [TextNode restChars]\<rparr>) s
                       in (numHidden, maybeNeedsMoveInsideViewport, s))))))"

definition updateHints :: "browser \<Rightarrow> hint_update list \<Rightarrow> string \<Rightarrow> renderer \<Rightarrow> renderer" where
  "updateHints B updates newText s =
     (case fold (updateHints_body newText) updates (0, [], s) of
        (numHidden, maybeNeedsMoveInsideViewport, s) \<Rightarrow>
          (let s = (if numHidden = length (hints s) then insertShruggie s else removeShruggie s);
               s = (if newText = [] then removeTitle s
                    else insertTitle (replaceWhitespace newText) s);
               s = (if length maybeNeedsMoveInsideViewport > 0
                    then snd (moveInsideViewport B maybeNeedsMoveInsideViewport (getViewport B) s)
                    else s)
           in s\<lparr>enteredTextChars := newText\<rparr>))"

subsection \<open>Messages and the life of the program\<close>

datatype unrender_mode = Immediate | Delayed | TitleMode string

datatype to_renderer =
    StateSync
  | Render "element_with_hint list"
  | UpdateHints "hint_update list" string
  | RotateHints bool
  | RenderTextRects "box list" int
  | UnrenderTextRects
  | Unrender unrender_mode

datatype from_background = FirefoxWorkaround | ToRenderer to_renderer | OtherMessage

definition sendMessage :: "from_renderer \<Rightarrow> renderer \<Rightarrow> renderer" where
  "sendMessage m s = s\<lparr>sent := sent s @ [m]\<rparr>"

fun onMessage :: "browser \<Rightarrow> from_background \<Rightarrow> renderer \<Rightarrow> renderer" where
  "onMessage B FirefoxWorkaround s = sendMessage RendererScriptAdded s"
| "onMessage B OtherMessage s = s"
| "onMessage B (ToRenderer StateSync) s = s"
| "onMessage B (ToRenderer (Render elements)) s = render B elements s"
| "onMessage B (ToRenderer (UpdateHints updates newText)) s = updateHints B updates newText s"
| "onMessage B (ToRenderer (RotateHints forward)) s = rotateHints (getBoundingClientRect B) forward s"
| "onMessage B (ToRenderer (RenderTextRects boxes frameId)) s =
     renderTextRects boxes frameId (unrenderTextRects (Some frameId) s)"
| "onMessage B (ToRenderer UnrenderTextRects) s = unrenderTextRects None s"
| "onMessage B (ToRenderer (Unrender Immediate)) s = unrender s"
| "onMessage B (ToRenderer (Unrender Delayed)) s = unrenderDelayed s"
| "onMessage B (ToRenderer (Unrender (TitleMode title))) s = unrenderToTitle title s"

definition start :: "bool \<Rightarrow> renderer \<Rightarrow> renderer" where
  "start announced s =
     (let s = unrender s;
          s = s\<lparr>listening := True\<rparr>
      in if announced then s\<lparr>sent := sent s @ [RendererScriptAdded]\<rparr> else s)"

definition stop :: "renderer \<Rightarrow> renderer" where
  "stop s = unrender (s\<lparr>listening := False\<rparr>)"

text \<open>
  The states the program can be in: it is constructed in some document, and from then
  on it is started or stopped, receives messages, has its timeouts run by the
  browser, and sees the page change the document under it.
\<close>

inductive reachable :: "renderer \<Rightarrow> bool" where
  reachable_constructor: "reachable (constructor hasRoot containers)"
| reachable_start: "reachable s \<Longrightarrow> reachable (start announced s)"
| reachable_stop: "reachable s \<Longrightarrow> reachable (stop s)"
| reachable_onMessage: "reachable s \<Longrightarrow> reachable (onMessage B m s)"
| reachable_timerFires: "reachable s \<Longrightarrow> reachable (timerFires t s)"
| reachable_page:
    "reachable s \<Longrightarrow> reachable (s\<lparr>documentElement := hasRoot, documentContainers := containers\<rparr>)"

section \<open>Notions used in the statements\<close>

text \<open>A rectangle crosses a boundary of the viewport.\<close>

definition crosses :: "rect \<Rightarrow> viewport \<Rightarrow> bool" where
  "crosses r viewport \<longleftrightarrow>
     rect_left r < 0 \<or> rect_top r < 0 \<or> rect_right r > vp_width viewport
       \<or> rect_bottom r > vp_height viewport"

text \<open>
  What one turn of \<^verbatim>\<open>moveInsideViewport\<close> leaves of an element whose rectangle
  was \<open>r\<close>: the two margins as the four tests of the loop body write them, the later
  test overwriting the earlier one.
\<close>

definition correctedNode :: "(rat \<Rightarrow> rat) \<Rightarrow> rect \<Rightarrow> viewport \<Rightarrow> hint_element \<Rightarrow> hint_element" where
  "correctedNode N r viewport n =
     n\<lparr>style_marginRight :=
         (if rect_right r > vp_width viewport
          then Some (Math_round (N (rect_right r - vp_width viewport)))
          else if rect_left r < 0 then Some (Math_round (rect_left r))
          else style_marginRight n),
       style_marginTop :=
         (if rect_bottom r > vp_height viewport
          then Some (Math_round (N (vp_height viewport - rect_bottom r)))
          else if rect_top r < 0 then Some (Math_round (- rect_top r))
          else style_marginTop n)\<rparr>"

text \<open>
  The state \<^verbatim>\<open>render\<close> enters its loop with: torn down, with the stylesheet in
  the shadow root, the container attached to the document and the observers on.
\<close>

definition prepared :: "browser \<Rightarrow> renderer \<Rightarrow> renderer" where
  "prepared B s0 =
     (let s = unrender s0;
          s = (if \<not> parsedCSS s then
                 (let s = s\<lparr>rootChildren := rootChildren s @ [StyleSheet]\<rparr>
                  in if styleBlocked B then s\<lparr>parsedCSS := True\<rparr> else s)
               else s);
          s = s\<lparr>documentContainers :=
                  filter (\<lambda>c. c \<noteq> OwnContainer) (documentContainers s) @ [OwnContainer]\<rparr>
      in s\<lparr>observing := True, containerResets := True\<rparr>)"

text \<open>The width model of \<^verbatim>\<open>render\<close>, measured on the two probes.\<close>

definition probeHalfHeight :: "browser \<Rightarrow> int" where
  "probeHalfHeight B =
     Math_ceil (number B (rect_height (getBoundingClientRect B (createHintElement ''W'')) / 2))"

definition probeWidthK :: "browser \<Rightarrow> rat" where
  "probeWidthK B =
     number B (rect_width (getBoundingClientRect B (createHintElement ''WW''))
               - rect_width (getBoundingClientRect B (createHintElement ''W'')))"

definition probeWidthM :: "browser \<Rightarrow> rat" where
  "probeWidthM B =
     number B (rect_width (getBoundingClientRect B (createHintElement ''W'')) - probeWidthK B)"

definition modelWidth :: "(rat \<Rightarrow> rat) \<Rightarrow> rat \<Rightarrow> rat \<Rightarrow> string \<Rightarrow> int" where
  "modelWidth N widthK widthM h = Math_ceil (N (widthM + N (widthK * of_nat (length h))))"

definition alignsLeft :: "(rat \<Rightarrow> rat) \<Rightarrow> rat \<Rightarrow> rat \<Rightarrow> element_with_hint \<Rightarrow> bool" where
  "alignsLeft N widthK widthM ewh \<longleftrightarrow>
     hm_align (hintMeasurements ewh) = AlignLeft \<and>
     N (hm_x (hintMeasurements ewh) + of_int (modelWidth N widthK widthM (hint ewh)))
       < hm_maxX (hintMeasurements ewh)"

text \<open>The hint element as one turn of the loop of \<^verbatim>\<open>render\<close> creates and styles it.\<close>

definition renderedHint ::
  "(rat \<Rightarrow> rat) \<Rightarrow> viewport \<Rightarrow> rat \<Rightarrow> rat \<Rightarrow> nat \<Rightarrow> element_with_hint \<Rightarrow> hint_element" where
  "renderedHint N viewport widthK widthM index ewh =
     (createHintElement (hint ewh))
       \<lparr>style_left := (if alignsLeft N widthK widthM ewh
                        then Some (Math_round (hm_x (hintMeasurements ewh))) else None),
        style_right := (if alignsLeft N widthK widthM ewh then None
                        else Some (Math_round (N (vp_width viewport - hm_x (hintMeasurements ewh))))),
        style_top := Some (Math_round (hm_y (hintMeasurements ewh))),
        style_zIndex := Some (MAX_Z_INDEX - int index)\<rparr>"

text \<open>The timeouts the browser holds are the one the program remembers, if any.\<close>

definition timerInvariant :: "renderer \<Rightarrow> bool" where
  "timerInvariant s \<longleftrightarrow>
     map fst (timers s) = (case unrenderTimeoutId s of None \<Rightarrow> [] | Some t \<Rightarrow> [t])"

text \<open>
  What \<^verbatim>\<open>updateHints\<close> does after its loop, from the loop's three variables; the
  hint element as one turn of the loop leaves it; and whether that turn queues the
  element for \<^verbatim>\<open>moveInsideViewport\<close>.
\<close>

definition finishUpdate :: "browser \<Rightarrow> string \<Rightarrow> nat \<times> node_id list \<times> renderer \<Rightarrow> renderer" where
  "finishUpdate B newText acc =
     (case acc of (numHidden, maybeNeedsMoveInsideViewport, s) \<Rightarrow>
        (let s = (if numHidden = length (hints s) then insertShruggie s else removeShruggie s);
             s = (if newText = [] then removeTitle s
                  else insertTitle (replaceWhitespace newText) s);
             s = (if length maybeNeedsMoveInsideViewport > 0
                  then snd (moveInsideViewport B maybeNeedsMoveInsideViewport (getViewport B) s)
                  else s)
         in s\<lparr>enteredTextChars := newText\<rparr>))"

fun updatedHint :: "string \<Rightarrow> string \<Rightarrow> hint_update \<Rightarrow> hint_element \<Rightarrow> hint_element" where
  "updatedHint newText oldText (Hide i) n = n\<lparr>hiddenClass := True\<rparr>"
| "updatedHint newText oldText (Update i matchedChars restChars highlighted) n =
     n\<lparr>childNodes := (if matchedChars \<noteq> [] then [MatchedCharsSpan matchedChars] else [])
                        @ [TextNode restChars],
       hiddenClass := False,
       highlightedClass := highlighted,
       style_marginRight := (if matchedChars = [] \<and> newText \<noteq> oldText then None
                             else style_marginRight n),
       style_marginTop := (if matchedChars = [] \<and> newText \<noteq> oldText then None
                           else style_marginTop n)\<rparr>"

fun requeued :: "string \<Rightarrow> string \<Rightarrow> hint_update \<Rightarrow> bool" where
  "requeued newText oldText (Hide i) = False"
| "requeued newText oldText (Update i matchedChars restChars highlighted) =
     (matchedChars = [] \<and> newText \<noteq> oldText)"

section \<open>A browser and states for the examples\<close>

text \<open>
  A layout of hints in a container 1000 pixels wide, as CSS places an absolutely
  positioned box: a label of \<open>k\<close> characters is \<open>10 + 6.5 k\<close> pixels wide and 18
  pixels high; it is centred on its \<^verbatim>\<open>top\<close>, moved down by \<^verbatim>\<open>margin-top\<close>; with
  \<^verbatim>\<open>left\<close> set its left edge is there, and otherwise its right edge is \<^verbatim>\<open>right\<close>
  plus \<^verbatim>\<open>margin-right\<close> away from the right edge of the container. Every number
  of the examples is a binary fraction of a few digits; on these the arithmetic is
  exact, and the rounding of the sample browser leaves them as they are.
\<close>

definition px :: "int option \<Rightarrow> rat" where
  "px v = (case v of None \<Rightarrow> 0 | Some p \<Rightarrow> of_int p)"

definition textLength :: "hint_element \<Rightarrow> nat" where
  "textLength n =
     length (concat (map (\<lambda>c. case c of TextNode t \<Rightarrow> t | MatchedCharsSpan t \<Rightarrow> t) (childNodes n)))"

definition sampleLayout :: "hint_element \<Rightarrow> rect" where
  "sampleLayout n =
     (let w = 10 + 13 / 2 * of_nat (textLength n);
          t = px (style_top n) - 9 + px (style_marginTop n);
          l = (case style_left n of
                 Some x \<Rightarrow> of_int x
               | None \<Rightarrow> (case style_right n of
                             None \<Rightarrow> 0
                           | Some r \<Rightarrow> 1000 - of_int r - px (style_marginRight n) - w))
      in \<lparr>rect_left = l, rect_top = t, rect_right = l + w, rect_bottom = t + 18,
          rect_width = w, rect_height = 18\<rparr>)"

definition sampleViewport :: viewport where
  "sampleViewport = \<lparr>vp_width = 1000, vp_height = 800\<rparr>"

definition sampleBrowser :: browser where
  "sampleBrowser =
     \<lparr>getBoundingClientRect = sampleLayout, getViewport = sampleViewport, styleBlocked = False,
      number = (\<lambda>x. x)\<rparr>"

text \<open>Targets to render, and a program with a pending title teardown.\<close>

definition targetAt :: "rat \<Rightarrow> rat \<Rightarrow> align \<Rightarrow> rat \<Rightarrow> string \<Rightarrow> element_with_hint" where
  "targetAt x y a maxX h =
     \<lparr>hintMeasurements = \<lparr>hm_x = x, hm_y = y, hm_align = a, hm_maxX = maxX\<rparr>, hint = h\<rparr>"

definition twoTargets :: "element_with_hint list" where
  "twoTargets = [targetAt 116 100 AlignRight 116 ''A'', targetAt 300 200 AlignLeft 400 ''B'']"

definition pendingTitle :: renderer where
  "pendingTitle = unrenderToTitle ''Copied'' (constructor True [])"

text \<open>
  Two hints rendered by a fresh program, and the same after a batch that hid the first.
\<close>

definition twoRendered :: renderer where
  "twoRendered = render sampleBrowser twoTargets (constructor True [])"

definition firstHidden :: renderer where
  "firstHidden = updateHints sampleBrowser [Hide 0] [] twoRendered"

text \<open>
  A target ten pixels from the right edge of the viewport whose hint is aligned left,
  and two targets near the left edge whose hints are aligned right; each rendered by
  a fresh program.
\<close>

definition rightEdgeTarget :: "element_with_hint list" where
  "rightEdgeTarget = [targetAt 990 10 AlignLeft 1100 ''A'']"

definition rightEdgeRendered :: renderer where
  "rightEdgeRendered = render sampleBrowser rightEdgeTarget (constructor True [])"

definition leftEdgeTargets :: "element_with_hint list" where
  "leftEdgeTargets = [targetAt 10 100 AlignRight 10 ''A'', targetAt 32 100 AlignRight 32 ''B'']"

definition leftEdgeRendered :: renderer where
  "leftEdgeRendered = render sampleBrowser leftEdgeTargets (constructor True [])"

text \<open>
  Four rendered hints in a row whose cached rectangles overlap in a chain: 0 with 1,
  1 with 3 and 3 with 2.
\<close>

definition chainRect :: "node_id \<Rightarrow> rect" where
  "chainRect e =
     (if e = 0 then \<lparr>rect_left = 100, rect_top = 91, rect_right = 116, rect_bottom = 109,
                      rect_width = 16, rect_height = 18\<rparr>
      else if e = 1 then \<lparr>rect_left = 115, rect_top = 91, rect_right = 131, rect_bottom = 109,
                           rect_width = 16, rect_height = 18\<rparr>
      else if e = 2 then \<lparr>rect_left = 145, rect_top = 91, rect_right = 161, rect_bottom = 109,
                           rect_width = 16, rect_height = 18\<rparr>
      else \<lparr>rect_left = 130, rect_top = 91, rect_right = 146, rect_bottom = 109,
            rect_width = 16, rect_height = 18\<rparr>)"

definition chainState :: renderer where
  "chainState =
     (constructor True [])\<lparr>
        hints := [0, 1, 2, 3],
        rects := (\<lambda>e. if e < 4 then Some (chainRect e) else None),
        nodes := (\<lambda>e. (createHintElement ''A'')\<lparr>style_zIndex := Some (MAX_Z_INDEX - int e)\<rparr>),
        nextNode := 4,
        rootChildren := [StyleSheet, HintNode 0, HintNode 1, HintNode 2, HintNode 3],
        documentContainers := [OwnContainer], observing := True, containerResets := True\<rparr>"

section \<open>Moving hints inside the viewport\<close>

lemma margin_updates_commute:
  "n\<lparr>style_marginTop := a, style_marginRight := b\<rparr> = n\<lparr>style_marginRight := b, style_marginTop := a\<rparr>"
  by (cases n) simp

lemma moveInsideViewport_body_eq:
  "moveInsideViewport_body B viewport e (moved, s) =
     (moved \<or> crosses (getBoundingClientRect B (nodes s e)) viewport,
      s\<lparr>rects := (rects s)(e \<mapsto> getBoundingClientRect B (nodes s e)),
        nodes := (nodes s)(e := correctedNode (number B) (getBoundingClientRect B (nodes s e)) viewport (nodes s e))\<rparr>)"
  by (auto simp add: moveInsideViewport_body_def Let_def updateNode_def crosses_def
      correctedNode_def margin_updates_commute)

lemma correctedNode_uncrossed: "\<not> crosses r viewport \<Longrightarrow> correctedNode N r viewport n = n"
  by (simp add: crosses_def correctedNode_def)

lemma correctedNode_fields [simp]:
  "childNodes (correctedNode N r viewport n) = childNodes n"
  "hiddenClass (correctedNode N r viewport n) = hiddenClass n"
  "highlightedClass (correctedNode N r viewport n) = highlightedClass n"
  "style_left (correctedNode N r viewport n) = style_left n"
  "style_right (correctedNode N r viewport n) = style_right n"
  "style_top (correctedNode N r viewport n) = style_top n"
  "style_zIndex (correctedNode N r viewport n) = style_zIndex n"
  by (simp_all add: correctedNode_def)

lemma moveInsideViewport_Nil: "moveInsideViewport B [] viewport s = (False, s)"
  by (simp add: moveInsideViewport_def)

lemma fold_moveInsideViewport_body_frame:
  "\<exists>r n. snd (fold (moveInsideViewport_body B viewport) es (m, s)) = s\<lparr>rects := r, nodes := n\<rparr>"
proof (induction es arbitrary: m s)
  case Nil
  have "s = s\<lparr>rects := rects s, nodes := nodes s\<rparr>" by simp
  then show ?case by (metis fold_simps(1) snd_conv)
next
  case (Cons e es)
  obtain m1 r1 n1 where b: "moveInsideViewport_body B viewport e (m, s) = (m1, s\<lparr>rects := r1, nodes := n1\<rparr>)"
    by (simp add: moveInsideViewport_body_eq Let_def)
  obtain r n where "snd (fold (moveInsideViewport_body B viewport) es (m1, s\<lparr>rects := r1, nodes := n1\<rparr>))
      = s\<lparr>rects := r1, nodes := n1\<rparr>\<lparr>rects := r, nodes := n\<rparr>"
    using Cons.IH by blast
  then have "snd (fold (moveInsideViewport_body B viewport) (e # es) (m, s)) = s\<lparr>rects := r, nodes := n\<rparr>"
    by (simp add: b)
  then show ?case by blast
qed

lemma moveInsideViewport_frame:
  "\<exists>r n. snd (moveInsideViewport B es viewport s) = s\<lparr>rects := r, nodes := n\<rparr>"
  unfolding moveInsideViewport_def by (rule fold_moveInsideViewport_body_frame)

lemma moveInsideViewport_fields [simp]:
  "hints (snd (moveInsideViewport B es viewport s)) = hints s"
  "timers (snd (moveInsideViewport B es viewport s)) = timers s"
  "unrenderTimeoutId (snd (moveInsideViewport B es viewport s)) = unrenderTimeoutId s"
  "rootChildren (snd (moveInsideViewport B es viewport s)) = rootChildren s"
  "errorLog (snd (moveInsideViewport B es viewport s)) = errorLog s"
  "documentContainers (snd (moveInsideViewport B es viewport s)) = documentContainers s"
  using moveInsideViewport_frame[of B es viewport s] by auto

lemma fold_moveInsideViewport_body_other:
  "e \<notin> set es \<Longrightarrow>
     nodes (snd (fold (moveInsideViewport_body B viewport) es (m, s))) e = nodes s e \<and>
     rects (snd (fold (moveInsideViewport_body B viewport) es (m, s))) e = rects s e"
  by (induction es arbitrary: m s) (auto simp: moveInsideViewport_body_eq)

lemma fold_moveInsideViewport_body_distinct:
  "distinct es \<Longrightarrow> e \<in> set es \<Longrightarrow>
     nodes (snd (fold (moveInsideViewport_body B viewport) es (m, s))) e
       = correctedNode (number B) (getBoundingClientRect B (nodes s e)) viewport (nodes s e) \<and>
     rects (snd (fold (moveInsideViewport_body B viewport) es (m, s))) e = Some (getBoundingClientRect B (nodes s e))"
proof (induction es arbitrary: m s)
  case Nil
  then show ?case by simp
next
  case (Cons a es)
  show ?case
  proof (cases "e = a")
    case True
    then have "e \<notin> set es" using Cons.prems by simp
    then show ?thesis using True
      by (simp add: moveInsideViewport_body_eq fold_moveInsideViewport_body_other)
  next
    case False
    then have "e \<in> set es" "distinct es" using Cons.prems by auto
    then show ?thesis using False Cons.IH
      by (simp add: moveInsideViewport_body_eq)
  qed
qed

lemma fold_moveInsideViewport_body_moved:
  "distinct es \<Longrightarrow>
     fst (fold (moveInsideViewport_body B viewport) es (m, s))
       \<longleftrightarrow> m \<or> (\<exists>e\<in>set es. crosses (getBoundingClientRect B (nodes s e)) viewport)"
proof (induction es arbitrary: m s)
  case Nil
  then show ?case by simp
next
  case (Cons a es)
  have "\<And>e. e \<in> set es \<Longrightarrow> e \<noteq> a" using Cons.prems by auto
  then show ?case using Cons.prems Cons.IH
    by (auto simp add: moveInsideViewport_body_eq)
qed

lemma fold_moveInsideViewport_body_keeps:
  "style_zIndex (nodes (snd (fold (moveInsideViewport_body B viewport) es (m, s))) e) = style_zIndex (nodes s e) \<and>
   style_left (nodes (snd (fold (moveInsideViewport_body B viewport) es (m, s))) e) = style_left (nodes s e) \<and>
   style_right (nodes (snd (fold (moveInsideViewport_body B viewport) es (m, s))) e) = style_right (nodes s e) \<and>
   style_top (nodes (snd (fold (moveInsideViewport_body B viewport) es (m, s))) e) = style_top (nodes s e) \<and>
   childNodes (nodes (snd (fold (moveInsideViewport_body B viewport) es (m, s))) e) = childNodes (nodes s e) \<and>
   hiddenClass (nodes (snd (fold (moveInsideViewport_body B viewport) es (m, s))) e) = hiddenClass (nodes s e) \<and>
   highlightedClass (nodes (snd (fold (moveInsideViewport_body B viewport) es (m, s))) e) = highlightedClass (nodes s e)"
  by (induction es arbitrary: m s) (simp_all add: moveInsideViewport_body_eq)

lemma moveInsideViewport_distinct:
  assumes "distinct es" "e \<in> set es"
  shows "nodes (snd (moveInsideViewport B es viewport s)) e
           = correctedNode (number B) (getBoundingClientRect B (nodes s e)) viewport (nodes s e)"
    and "rects (snd (moveInsideViewport B es viewport s)) e = Some (getBoundingClientRect B (nodes s e))"
  using fold_moveInsideViewport_body_distinct[OF assms, of B viewport False s]
  by (simp_all add: moveInsideViewport_def)

lemma moveInsideViewport_moved:
  "distinct es \<Longrightarrow>
     fst (moveInsideViewport B es viewport s) \<longleftrightarrow> (\<exists>e\<in>set es. crosses (getBoundingClientRect B (nodes s e)) viewport)"
  by (simp add: moveInsideViewport_def fold_moveInsideViewport_body_moved)

lemma Math_round_eq:
  "of_int z \<le> x + 1 / 2 \<Longrightarrow> x + 1 / 2 < of_int z + 1 \<Longrightarrow> Math_round x = z"
  unfolding Math_round_def by (rule floor_unique)

lemma Math_ceil_eq:
  "of_int z - 1 < x \<Longrightarrow> x \<le> of_int z \<Longrightarrow> Math_ceil x = z"
  unfolding Math_ceil_def by (rule ceiling_unique)

section \<open>Tearing down\<close>

text \<open>
  Claim C8, as amended. \<^verbatim>\<open>unrender\<close> is idempotent: a second call in a row
  changes nothing. It is a no-op exactly in the states that are already torn down: no
  teardown timeout pending, no hints, no cached rectangle, an empty shadow root, no
  observer or resize listener, and no container in the document. A program that has
  just been constructed is such a state once the stray containers are gone, and
  \<^verbatim>\<open>unrender\<close> changes nothing of it but the document, from which it removes them.
  After any call no element with the container's id is left in the document.
\<close>

theorem unrender_idempotent:
  "unrender (unrender s) = unrender s \<and>
   unrender (constructor hasRoot containers) = constructor hasRoot [] \<and>
   documentContainers (unrender s) = [] \<and>
   (unrender s = s \<longleftrightarrow>
      unrenderTimeoutId s = None \<and> hints s = [] \<and> rects s = Map.empty \<and>
      rootChildren s = [] \<and> \<not> containerResets s \<and> \<not> observing s \<and>
      documentContainers s = [])"
proof -
  have a: "unrender (unrender s) = unrender s"
    by (simp add: unrender_def clearTimeout_def split: option.splits)
  have b: "unrender (constructor hasRoot containers) = constructor hasRoot []"
    by (simp add: unrender_def constructor_def)
  have f: "unrenderTimeoutId (unrender s) = None" "hints (unrender s) = []"
    "rects (unrender s) = Map.empty" "rootChildren (unrender s) = []"
    "\<not> containerResets (unrender s)" "\<not> observing (unrender s)"
    "documentContainers (unrender s) = []"
    by (simp_all add: unrender_def clearTimeout_def split: option.splits)
  have d: "unrender s = s"
    if "unrenderTimeoutId s = None \<and> hints s = [] \<and> rects s = Map.empty \<and>
        rootChildren s = [] \<and> \<not> containerResets s \<and> \<not> observing s \<and>
        documentContainers s = []"
    using that by (cases s) (simp add: unrender_def)
  have e: "unrenderTimeoutId s = None \<and> hints s = [] \<and> rects s = Map.empty \<and>
        rootChildren s = [] \<and> \<not> containerResets s \<and> \<not> observing s \<and>
        documentContainers s = []"
    if "unrender s = s"
    using f unfolding that by simp
  show ?thesis using a b f(7) d e by blast
qed

text \<open>
  Claim C8 as it was stated fails: a program that was constructed and then asked to
  tear down to a title has rendered nothing, and \<^verbatim>\<open>unrender\<close> is not a no-op on
  it. The call cancels the pending timeout and removes the title from the shadow
  root.
\<close>

theorem unrender_before_any_render:
  "hints pendingTitle = [] \<and> sent pendingTitle = [] \<and>
   unrenderTimeoutId pendingTitle = Some 0 \<and>
   timers pendingTitle = [(0, UnrenderToTitleCallback)] \<and>
   rootChildren pendingTitle = [Title] \<and>
   unrenderTimeoutId (unrender pendingTitle) = None \<and>
   timers (unrender pendingTitle) = [] \<and>
   rootChildren (unrender pendingTitle) = [] \<and>
   unrender pendingTitle \<noteq> pendingTitle"
proof -
  have p: "hints pendingTitle = []" "sent pendingTitle = []"
    "unrenderTimeoutId pendingTitle = Some 0"
    "timers pendingTitle = [(0, UnrenderToTitleCallback)]"
    "rootChildren pendingTitle = [Title]"
    by (simp_all add: pendingTitle_def unrenderToTitle_def constructor_def insertTitle_def
        rootAppend_def setTimeout_def Let_def)
  have u: "unrenderTimeoutId (unrender pendingTitle) = None"
    "timers (unrender pendingTitle) = []"
    "rootChildren (unrender pendingTitle) = []"
    by (simp_all add: unrender_def p clearTimeout_def)
  have "rootChildren (unrender pendingTitle) \<noteq> rootChildren pendingTitle"
    by (simp add: u p)
  then have "unrender pendingTitle \<noteq> pendingTitle" by auto
  then show ?thesis using p u by simp
qed

section \<open>Rendering\<close>

lemma render_unfold:
  "render B es s =
     (if \<not> documentElement s then s
      else if es = [] then insertShruggie (prepared B s)
      else (case render_loop (number B) (getViewport B) (probeHalfHeight B)
                   (probeWidthK B) (probeWidthM B) 0 es (prepared B s, [], [], 0) of
              (s1, edgeElements, restElements, numEdgeElements) \<Rightarrow>
                (let s2 = (if numEdgeElements > 0
                           then snd (moveInsideViewport B edgeElements (getViewport B) s1)
                           else s1);
                     s3 = snd (moveInsideViewport B restElements (getViewport B) s2)
                 in s3\<lparr>sent := sent s3 @ [Rendered]\<rparr>)))"
  by (simp add: render_def prepared_def probeHalfHeight_def probeWidthK_def probeWidthM_def Let_def
      split: prod.splits)

lemma render_body_fst:
  "fst (render_body N vp hh wK wM i e (s, ed, re, k)) =
     s\<lparr>nodes := (nodes s)(nextNode s := renderedHint N vp wK wM i e),
       nextNode := Suc (nextNode s),
       rootChildren := filter (\<lambda>x. x \<noteq> HintNode (nextNode s)) (rootChildren s) @ [HintNode (nextNode s)],
       hints := hints s @ [nextNode s]\<rparr>"
  by (cases s)
     (simp add: render_body_def Let_def updateNode_def rootAppend_def renderedHint_def
        alignsLeft_def modelWidth_def)

lemma render_loop_frame:
  "\<exists>n rc. fst (render_loop N vp hh wK wM i es (s, ed, re, k))
      = s\<lparr>nodes := n, nextNode := nextNode s + length es, rootChildren := rc,
          hints := hints s @ map (\<lambda>j. nextNode s + j) [0 ..< length es]\<rparr>"
proof (induction es arbitrary: i s ed re k)
  case Nil
  show ?case by (rule exI[of _ "nodes s"], rule exI[of _ "rootChildren s"]) simp
next
  case (Cons e es)
  obtain s1 ed1 re1 k1 where b: "render_body N vp hh wK wM i e (s, ed, re, k) = (s1, ed1, re1, k1)"
    by (cases "render_body N vp hh wK wM i e (s, ed, re, k)") auto
  have s1: "s1 = s\<lparr>nodes := (nodes s)(nextNode s := renderedHint N vp wK wM i e),
       nextNode := Suc (nextNode s),
       rootChildren := filter (\<lambda>x. x \<noteq> HintNode (nextNode s)) (rootChildren s) @ [HintNode (nextNode s)],
       hints := hints s @ [nextNode s]\<rparr>"
    using render_body_fst[of N vp hh wK wM i e s ed re k] b by simp
  obtain n rc where ih: "fst (render_loop N vp hh wK wM (Suc i) es (s1, ed1, re1, k1))
      = s1\<lparr>nodes := n, nextNode := nextNode s1 + length es, rootChildren := rc,
          hints := hints s1 @ map (\<lambda>j. nextNode s1 + j) [0 ..< length es]\<rparr>"
    using Cons.IH by blast
  have "fst (render_loop N vp hh wK wM i (e # es) (s, ed, re, k))
      = s\<lparr>nodes := n, nextNode := nextNode s + length (e # es), rootChildren := rc,
          hints := hints s @ map (\<lambda>j. nextNode s + j) [0 ..< length (e # es)]\<rparr>"
    by (simp add: b ih del: upt_Suc) (simp add: s1 map_upt_Suc del: upt_Suc)
  then show ?case by blast
qed

lemma render_loop_nodes:
  "nodes (fst (render_loop N vp hh wK wM i es (s, ed, re, k))) e =
     (if nextNode s \<le> e \<and> e < nextNode s + length es
      then renderedHint N vp wK wM (i + (e - nextNode s)) (es ! (e - nextNode s))
      else nodes s e)"
proof (induction es arbitrary: i s ed re k)
  case Nil
  show ?case by auto
next
  case (Cons e0 es)
  obtain s1 ed1 re1 k1 where b: "render_body N vp hh wK wM i e0 (s, ed, re, k) = (s1, ed1, re1, k1)"
    by (cases "render_body N vp hh wK wM i e0 (s, ed, re, k)") auto
  have s1: "s1 = s\<lparr>nodes := (nodes s)(nextNode s := renderedHint N vp wK wM i e0),
       nextNode := Suc (nextNode s),
       rootChildren := filter (\<lambda>x. x \<noteq> HintNode (nextNode s)) (rootChildren s) @ [HintNode (nextNode s)],
       hints := hints s @ [nextNode s]\<rparr>"
    using render_body_fst[of N vp hh wK wM i e0 s ed re k] b by simp
  have n1: "nextNode s1 = Suc (nextNode s)"
    and nd: "nodes s1 = (nodes s)(nextNode s := renderedHint N vp wK wM i e0)"
    by (simp_all add: s1)
  have ih: "nodes (fst (render_loop N vp hh wK wM (Suc i) es (s1, ed1, re1, k1))) e =
     (if Suc (nextNode s) \<le> e \<and> e < Suc (nextNode s) + length es
      then renderedHint N vp wK wM (Suc i + (e - Suc (nextNode s))) (es ! (e - Suc (nextNode s)))
      else nodes s1 e)"
    using Cons.IH[of "Suc i" s1 ed1 re1 k1] by (simp add: n1)
  show ?case
  proof (cases "Suc (nextNode s) \<le> e \<and> e < Suc (nextNode s) + length es")
    case True
    then have "e - nextNode s = Suc (e - Suc (nextNode s))" by arith
    then show ?thesis using True by (simp add: b ih)
  next
    case False
    then show ?thesis by (auto simp add: b ih nd)
  qed
qed

lemma moveInsideViewport_keeps:
  "style_zIndex (nodes (snd (moveInsideViewport B es vp s)) e) = style_zIndex (nodes s e)"
  "style_left (nodes (snd (moveInsideViewport B es vp s)) e) = style_left (nodes s e)"
  "style_right (nodes (snd (moveInsideViewport B es vp s)) e) = style_right (nodes s e)"
  "style_top (nodes (snd (moveInsideViewport B es vp s)) e) = style_top (nodes s e)"
  "childNodes (nodes (snd (moveInsideViewport B es vp s)) e) = childNodes (nodes s e)"
  "hiddenClass (nodes (snd (moveInsideViewport B es vp s)) e) = hiddenClass (nodes s e)"
  "highlightedClass (nodes (snd (moveInsideViewport B es vp s)) e) = highlightedClass (nodes s e)"
  using fold_moveInsideViewport_body_keeps[of B vp es False s e]
  by (simp_all add: moveInsideViewport_def)

lemma prepared_fields [simp]:
  "hints (prepared B s) = []"
  "nextNode (prepared B s) = nextNode s"
  "timers (prepared B s) = timers (unrender s)"
  "unrenderTimeoutId (prepared B s) = unrenderTimeoutId (unrender s)"
  by (simp_all add: prepared_def Let_def unrender_def clearTimeout_def split: option.splits)

lemma render_hints:
  assumes "documentElement s"
  shows "hints (render B es s) = map (\<lambda>j. nextNode s + j) [0 ..< length es]"
proof (cases "es = []")
  case True
  then show ?thesis using assms
    by (simp add: render_unfold insertShruggie_def rootAppend_def)
next
  case False
  let ?N = "number B" and ?vp = "getViewport B"
  obtain s1 edge rest k where
    l: "render_loop ?N ?vp (probeHalfHeight B) (probeWidthK B) (probeWidthM B) 0 es
          (prepared B s, [], [], 0) = (s1, edge, rest, k)"
    by (metis prod_cases4)
  obtain n rc where
    "fst (render_loop ?N ?vp (probeHalfHeight B) (probeWidthK B) (probeWidthM B) 0 es
          (prepared B s, [], [], 0))
      = (prepared B s)\<lparr>nodes := n, nextNode := nextNode (prepared B s) + length es,
          rootChildren := rc,
          hints := hints (prepared B s) @ map (\<lambda>j. nextNode (prepared B s) + j) [0 ..< length es]\<rparr>"
    using render_loop_frame by blast
  then have "hints s1 = map (\<lambda>j. nextNode s + j) [0 ..< length es]"
    by (simp add: l)
  then show ?thesis using assms False
    by (simp add: render_unfold l Let_def)
qed

lemma render_nodes:
  assumes "documentElement s" "i < length es"
  shows "style_zIndex (nodes (render B es s) (nextNode s + i)) = Some (MAX_Z_INDEX - int i)"
    and "style_left (nodes (render B es s) (nextNode s + i)) =
           style_left (renderedHint (number B) (getViewport B) (probeWidthK B) (probeWidthM B) i (es ! i))"
    and "style_right (nodes (render B es s) (nextNode s + i)) =
           style_right (renderedHint (number B) (getViewport B) (probeWidthK B) (probeWidthM B) i (es ! i))"
    and "style_top (nodes (render B es s) (nextNode s + i)) =
           style_top (renderedHint (number B) (getViewport B) (probeWidthK B) (probeWidthM B) i (es ! i))"
proof -
  let ?N = "number B" and ?vp = "getViewport B"
  have ne: "es \<noteq> []" using assms(2) by auto
  obtain s1 edge rest k where
    l: "render_loop ?N ?vp (probeHalfHeight B) (probeWidthK B) (probeWidthM B) 0 es
          (prepared B s, [], [], 0) = (s1, edge, rest, k)"
    by (metis prod_cases4)
  have n1: "nodes s1 (nextNode s + i) = renderedHint ?N ?vp (probeWidthK B) (probeWidthM B) i (es ! i)"
    using render_loop_nodes[of ?N ?vp "probeHalfHeight B" "probeWidthK B" "probeWidthM B" 0 es
        "prepared B s" "[]" "[]" 0 "nextNode s + i"] assms(2)
    by (simp add: l)
  have z: "style_zIndex (renderedHint ?N ?vp (probeWidthK B) (probeWidthM B) i (es ! i))
             = Some (MAX_Z_INDEX - int i)"
    by (simp add: renderedHint_def)
  show "style_zIndex (nodes (render B es s) (nextNode s + i)) = Some (MAX_Z_INDEX - int i)"
    using assms(1) ne by (simp add: render_unfold l Let_def moveInsideViewport_keeps n1 z)
  show "style_left (nodes (render B es s) (nextNode s + i)) =
           style_left (renderedHint ?N ?vp (probeWidthK B) (probeWidthM B) i (es ! i))"
    using assms(1) ne by (simp add: render_unfold l Let_def moveInsideViewport_keeps n1)
  show "style_right (nodes (render B es s) (nextNode s + i)) =
           style_right (renderedHint ?N ?vp (probeWidthK B) (probeWidthM B) i (es ! i))"
    using assms(1) ne by (simp add: render_unfold l Let_def moveInsideViewport_keeps n1)
  show "style_top (nodes (render B es s) (nextNode s + i)) =
           style_top (renderedHint ?N ?vp (probeWidthK B) (probeWidthM B) i (es ! i))"
    using assms(1) ne by (simp add: render_unfold l Let_def moveInsideViewport_keeps n1)
qed

lemma sampleLayout_probes:
  "rect_width (sampleLayout (createHintElement ''W'')) = 33 / 2"
  "rect_width (sampleLayout (createHintElement ''WW'')) = 23"
  "rect_height (sampleLayout (createHintElement ''W'')) = 18"
  by (simp_all add: sampleLayout_def createHintElement_def px_def textLength_def Let_def)

lemma sampleBrowser_probes:
  "probeWidthK sampleBrowser = 13 / 2"
  "probeWidthM sampleBrowser = 10"
  by (simp_all add: probeWidthK_def probeWidthM_def sampleBrowser_def sampleLayout_probes)

lemma sampleBrowser_fields [simp]:
  "getBoundingClientRect sampleBrowser = sampleLayout"
  "getViewport sampleBrowser = sampleViewport"
  "number sampleBrowser = (\<lambda>x. x)"
  by (simp_all add: sampleBrowser_def)

text \<open>
  Claim C1, as amended. When the document has a root element, \<^verbatim>\<open>render\<close> of N
  elements leaves exactly N hints; the hint of the element at position i has the
  stacking index \<^verbatim>\<open>MAX_Z_INDEX - i\<close>, so the indices are pairwise different and
  each hint's index is strictly greater than the next one's.
\<close>

theorem render_stacking_order:
  assumes "documentElement s"
  shows "length (hints (render B elements s)) = length elements \<and>
         (\<forall>i < length elements.
            style_zIndex (nodes (render B elements s) (hints (render B elements s) ! i))
              = Some (MAX_Z_INDEX - int i)) \<and>
         distinct (map (\<lambda>e. style_zIndex (nodes (render B elements s) e))
                     (hints (render B elements s))) \<and>
         (\<forall>i. Suc i < length elements \<longrightarrow>
            zIndexNumber (nodes (render B elements s) (hints (render B elements s) ! Suc i))
              < zIndexNumber (nodes (render B elements s) (hints (render B elements s) ! i)))"
proof -
  let ?s = "render B elements s"
  have h: "hints ?s = map (\<lambda>j. nextNode s + j) [0 ..< length elements]"
    using assms by (rule render_hints)
  have len: "length (hints ?s) = length elements"
    by (simp add: h)
  have z: "style_zIndex (nodes ?s (hints ?s ! i)) = Some (MAX_Z_INDEX - int i)"
    if "i < length elements" for i
    using that render_nodes(1)[OF assms that, of B] by (simp add: h)
  have d: "distinct (map (\<lambda>e. style_zIndex (nodes ?s e)) (hints ?s))"
  proof (rule iffD2[OF distinct_conv_nth], intro allI impI)
    fix i j
    assume i: "i < length (map (\<lambda>e. style_zIndex (nodes ?s e)) (hints ?s))"
      and j: "j < length (map (\<lambda>e. style_zIndex (nodes ?s e)) (hints ?s))"
      and ij: "i \<noteq> j"
    have "i < length elements" "j < length elements" using i j len by simp_all
    then show "map (\<lambda>e. style_zIndex (nodes ?s e)) (hints ?s) ! i
                 \<noteq> map (\<lambda>e. style_zIndex (nodes ?s e)) (hints ?s) ! j"
      using z[of i] z[of j] ij len by simp
  qed
  have o: "zIndexNumber (nodes ?s (hints ?s ! Suc i)) < zIndexNumber (nodes ?s (hints ?s ! i))"
    if "Suc i < length elements" for i
    using z[of i] z[of "Suc i"] that by (simp add: zIndexNumber_def)
  show ?thesis using len z d o by blast
qed

text \<open>The theorem at two targets rendered by a fresh program.\<close>

theorem render_stacking_order_witness:
  "documentElement (constructor True []) \<and>
   length (hints (render sampleBrowser twoTargets (constructor True []))) = 2 \<and>
   zIndexNumber (nodes (render sampleBrowser twoTargets (constructor True []))
       (hints (render sampleBrowser twoTargets (constructor True [])) ! Suc 0))
     < zIndexNumber (nodes (render sampleBrowser twoTargets (constructor True []))
       (hints (render sampleBrowser twoTargets (constructor True [])) ! 0))"
proof -
  have d: "documentElement (constructor True [])" by (simp add: constructor_def)
  have l: "length twoTargets = 2" by (simp add: twoTargets_def)
  show ?thesis
    using render_stacking_order[OF d, of sampleBrowser twoTargets] d l by simp
qed

text \<open>
  Claim C1 as it was stated fails: without a root element \<^verbatim>\<open>render\<close> returns at
  its guard, and the two elements are rendered as no hint at all.
\<close>

theorem render_without_root_element:
  "length (hints (render sampleBrowser twoTargets (constructor False []))) \<noteq> length twoTargets"
  by (simp add: render_def constructor_def twoTargets_def)

text \<open>
  Claim C6. For every element that \<^verbatim>\<open>render\<close> renders, the hint is positioned by
  \<^verbatim>\<open>left\<close> iff the measurements ask for left alignment and the hint's right edge,
  \<open>x\<close> plus the modelled width as the engine computes them from the two probes,
  stays left of \<open>maxX\<close>; otherwise it is positioned by \<^verbatim>\<open>right\<close>; exactly one of
  the two properties is set, and \<^verbatim>\<open>top\<close> always.
\<close>

theorem render_alignment:
  assumes "documentElement s" and "i < length elements"
  shows "let s' = render B elements s;
             n = nodes s' (hints s' ! i);
             hm = hintMeasurements (elements ! i);
             N = number B;
             rect1 = getBoundingClientRect B (createHintElement ''W'');
             rect2 = getBoundingClientRect B (createHintElement ''WW'');
             widthK = N (rect_width rect2 - rect_width rect1);
             widthM = N (rect_width rect1 - widthK);
             width = Math_ceil (N (widthM + N (widthK * of_nat (length (hint (elements ! i))))));
             alignLeft = (hm_align hm = AlignLeft \<and> N (hm_x hm + of_int width) < hm_maxX hm)
         in (alignLeft \<longrightarrow> style_left n = Some (Math_round (hm_x hm)) \<and> style_right n = None) \<and>
            (\<not> alignLeft \<longrightarrow> style_left n = None \<and>
               style_right n = Some (Math_round (N (vp_width (getViewport B) - hm_x hm)))) \<and>
            style_top n = Some (Math_round (hm_y hm))"
proof -
  have h: "hints (render B elements s) ! i = nextNode s + i"
    using render_hints[OF assms(1), of B elements] assms(2) by simp
  show ?thesis
    unfolding Let_def h render_nodes(2-4)[OF assms]
    by (simp add: renderedHint_def alignsLeft_def modelWidth_def probeWidthK_def probeWidthM_def)
qed

text \<open>The theorem at two targets: the second is aligned left, the first right.\<close>

theorem render_alignment_witness:
  "documentElement (constructor True []) \<and> Suc 0 < length twoTargets \<and>
   style_left (nodes (render sampleBrowser twoTargets (constructor True []))
     (hints (render sampleBrowser twoTargets (constructor True [])) ! Suc 0)) = Some 300 \<and>
   style_right (nodes (render sampleBrowser twoTargets (constructor True []))
     (hints (render sampleBrowser twoTargets (constructor True [])) ! Suc 0)) = None \<and>
   style_top (nodes (render sampleBrowser twoTargets (constructor True []))
     (hints (render sampleBrowser twoTargets (constructor True [])) ! Suc 0)) = Some 200 \<and>
   style_left (nodes (render sampleBrowser twoTargets (constructor True []))
     (hints (render sampleBrowser twoTargets (constructor True [])) ! 0)) = None \<and>
   style_right (nodes (render sampleBrowser twoTargets (constructor True []))
     (hints (render sampleBrowser twoTargets (constructor True [])) ! 0)) = Some 884"
proof -
  have d: "documentElement (constructor True [])" by (simp add: constructor_def)
  have l: "Suc 0 < length twoTargets" "0 < length twoTargets" by (simp_all add: twoTargets_def)
  have c: "Math_ceil (33 / 2) = 17" by (rule Math_ceil_eq) simp_all
  have r: "Math_round 300 = 300" "Math_round 200 = 200" "Math_round 884 = 884"
    by (rule Math_round_eq, simp, simp)+
  have e: "twoTargets ! Suc 0 = targetAt 300 200 AlignLeft 400 ''B''"
    "twoTargets ! 0 = targetAt 116 100 AlignRight 116 ''A''"
    by (simp_all add: twoTargets_def)
  show ?thesis
    using render_alignment[OF d l(1), of sampleBrowser] render_alignment[OF d l(2), of sampleBrowser]
    by (simp add: Let_def d l e targetAt_def sampleLayout_probes sampleViewport_def c r)
qed

lemma render_body_lists:
  "\<exists>ed1 re1 k1. snd (render_body N vp hh wK wM i e (s, ed, re, k)) = (ed1, re1, k1) \<and>
      mset (ed1 @ re1) = mset (ed @ re) + {#nextNode s#} \<and>
      (k = length ed \<longrightarrow> k1 = length ed1)"
  by (simp add: render_body_def Let_def)

lemma render_loop_lists:
  "snd (render_loop N vp hh wK wM i es (s, ed, re, k)) = (ed', re', k') \<Longrightarrow>
     mset (ed' @ re') = mset (ed @ re) + mset (map (\<lambda>j. nextNode s + j) [0 ..< length es]) \<and>
     (k = length ed \<longrightarrow> k' = length ed')"
proof (induction es arbitrary: i s ed re k)
  case Nil
  then show ?case by simp
next
  case (Cons e es)
  obtain s1 ed1 re1 k1 where b: "render_body N vp hh wK wM i e (s, ed, re, k) = (s1, ed1, re1, k1)"
    by (cases "render_body N vp hh wK wM i e (s, ed, re, k)") auto
  have n1: "nextNode s1 = Suc (nextNode s)"
    using render_body_fst[of N vp hh wK wM i e s ed re k] b by simp
  have l1: "mset (ed1 @ re1) = mset (ed @ re) + {#nextNode s#}" "k = length ed \<longrightarrow> k1 = length ed1"
    using render_body_lists[of N vp hh wK wM i e s ed re k] b by auto
  have r: "snd (render_loop N vp hh wK wM (Suc i) es (s1, ed1, re1, k1)) = (ed', re', k')"
    using Cons.prems by (simp add: b)
  have ih: "mset (ed' @ re') = mset (ed1 @ re1) + mset (map (\<lambda>j. nextNode s1 + j) [0 ..< length es])"
    "k1 = length ed1 \<longrightarrow> k' = length ed'"
    using Cons.IH[OF r] by auto
  have "mset (map (\<lambda>j. nextNode s + j) [0 ..< length (e # es)])
          = {#nextNode s#} + mset (map (\<lambda>j. nextNode s1 + j) [0 ..< length es])"
    by (simp add: map_upt_Suc n1 del: upt_Suc)
  then show ?case using ih l1 by (simp del: upt_Suc)
qed

text \<open>
  What \<^verbatim>\<open>render\<close> leaves of each hint: the element as the loop created it, with
  the margins of the one pass of \<^verbatim>\<open>moveInsideViewport\<close> that measured it; and the
  cache holds the rectangle that this pass measured.
\<close>

lemma render_result:
  assumes "documentElement s" "i < length es"
  shows "nodes (render B es s) (nextNode s + i) =
           correctedNode (number B)
             (getBoundingClientRect B
                (renderedHint (number B) (getViewport B) (probeWidthK B) (probeWidthM B) i (es ! i)))
             (getViewport B)
             (renderedHint (number B) (getViewport B) (probeWidthK B) (probeWidthM B) i (es ! i))"
    and "rects (render B es s) (nextNode s + i) =
           Some (getBoundingClientRect B
                (renderedHint (number B) (getViewport B) (probeWidthK B) (probeWidthM B) i (es ! i)))"
proof -
  let ?N = "number B" and ?vp = "getViewport B" and ?e = "nextNode s + i"
  let ?h = "renderedHint ?N ?vp (probeWidthK B) (probeWidthM B) i (es ! i)"
  have ne: "es \<noteq> []" using assms(2) by auto
  obtain s1 edge rest k where
    l: "render_loop ?N ?vp (probeHalfHeight B) (probeWidthK B) (probeWidthM B) 0 es
          (prepared B s, [], [], 0) = (s1, edge, rest, k)"
    by (metis prod_cases4)
  have n1: "nodes s1 ?e = ?h"
    using render_loop_nodes[of ?N ?vp "probeHalfHeight B" "probeWidthK B" "probeWidthM B" 0 es
        "prepared B s" "[]" "[]" 0 ?e] assms(2)
    by (simp add: l)
  have ls: "mset (edge @ rest) = mset (map (\<lambda>j. nextNode s + j) [0 ..< length es])" "k = length edge"
    using render_loop_lists[of ?N ?vp "probeHalfHeight B" "probeWidthK B" "probeWidthM B" 0 es
        "prepared B s" "[]" "[]" 0 edge rest k]
    by (simp_all add: l)
  have "distinct (map (\<lambda>j. nextNode s + j) [0 ..< length es])"
    by (simp add: distinct_map inj_on_def)
  then have d: "distinct (edge @ rest)"
    using ls(1) mset_eq_imp_distinct_iff by blast
  have "?e \<in> set (map (\<lambda>j. nextNode s + j) [0 ..< length es])"
    using assms(2) by auto
  then have m: "?e \<in> set (edge @ rest)"
    using ls(1) mset_eq_setD by blast
  define s2 where "s2 = snd (moveInsideViewport B edge ?vp s1)"
  define s3 where "s3 = snd (moveInsideViewport B rest ?vp s2)"
  have s2: "(if k > 0 then snd (moveInsideViewport B edge ?vp s1) else s1) = s2"
    using ls(2) by (auto simp add: s2_def moveInsideViewport_Nil)
  have r: "render B es s = s3\<lparr>sent := sent s3 @ [Rendered]\<rparr>"
    using assms(1) ne by (simp add: render_unfold l Let_def s2 s3_def)
  have "nodes s3 ?e = correctedNode ?N (getBoundingClientRect B ?h) ?vp ?h \<and>
        rects s3 ?e = Some (getBoundingClientRect B ?h)"
  proof (cases "?e \<in> set edge")
    case True
    then have nr: "?e \<notin> set rest" using d by auto
    have de: "distinct edge" using d by simp
    have "nodes s2 ?e = correctedNode ?N (getBoundingClientRect B ?h) ?vp ?h"
      "rects s2 ?e = Some (getBoundingClientRect B ?h)"
      using moveInsideViewport_distinct[OF de True, of B ?vp s1] by (simp_all add: s2_def n1)
    then show ?thesis
      using fold_moveInsideViewport_body_other[OF nr, of B ?vp False s2]
      by (simp add: s3_def moveInsideViewport_def)
  next
    case False
    then have ir: "?e \<in> set rest" using m by auto
    have dr: "distinct rest" using d by simp
    have "nodes s2 ?e = ?h"
      using fold_moveInsideViewport_body_other[OF False, of B ?vp False s1]
      by (simp add: s2_def moveInsideViewport_def n1)
    then show ?thesis
      using moveInsideViewport_distinct[OF dr ir, of B ?vp s2] by (simp add: s3_def)
  qed
  then show "nodes (render B es s) ?e = correctedNode ?N (getBoundingClientRect B ?h) ?vp ?h"
    and "rects (render B es s) ?e = Some (getBoundingClientRect B ?h)"
    by (simp_all add: r)
qed

section \<open>Hints at the edges of the viewport\<close>

lemma rightEdge_hint:
  "renderedHint (\<lambda>x. x) sampleViewport (13 / 2) 10 0 (targetAt 990 10 AlignLeft 1100 ''A'') =
     (createHintElement ''A'')\<lparr>style_left := Some 990, style_right := None, style_top := Some 10,
                               style_zIndex := Some MAX_Z_INDEX\<rparr>"
proof -
  have c: "Math_ceil (33 / 2) = 17" by (rule Math_ceil_eq) simp_all
  have r: "Math_round 990 = 990" "Math_round 10 = 10"
    by (rule Math_round_eq, simp, simp)+
  show ?thesis
    by (simp add: renderedHint_def alignsLeft_def modelWidth_def targetAt_def c r)
qed

lemma rightEdge_rect:
  "sampleLayout ((createHintElement ''A'')\<lparr>style_left := Some 990, style_right := None,
       style_top := Some 10, style_zIndex := Some MAX_Z_INDEX, style_marginRight := m\<rparr>) =
     \<lparr>rect_left = 990, rect_top = 1, rect_right = 2013 / 2, rect_bottom = 19,
      rect_width = 33 / 2, rect_height = 18\<rparr>"
  by (simp add: sampleLayout_def createHintElement_def px_def textLength_def Let_def)

lemma rightEdge_corrected:
  "correctedNode (\<lambda>x. x)
     \<lparr>rect_left = 990, rect_top = 1, rect_right = 2013 / 2, rect_bottom = 19,
      rect_width = 33 / 2, rect_height = 18\<rparr> sampleViewport
     ((createHintElement ''A'')\<lparr>style_left := Some 990, style_right := None,
       style_top := Some 10, style_zIndex := Some MAX_Z_INDEX, style_marginRight := m\<rparr>) =
   (createHintElement ''A'')\<lparr>style_left := Some 990, style_right := None,
       style_top := Some 10, style_zIndex := Some MAX_Z_INDEX, style_marginRight := Some 7\<rparr>"
proof -
  have r: "Math_round (13 / 2) = 7" by (rule Math_round_eq) simp_all
  have "(2013 / 2 :: rat) - 1000 = 13 / 2" by simp
  then show ?thesis
    by (simp add: correctedNode_def sampleViewport_def r createHintElement_def)
qed

text \<open>
  Claim C2 fails on the code at a hint that is positioned by \<^verbatim>\<open>left\<close>. In a
  viewport of 1000 by 800 pixels a fresh program renders one target at x = 990,
  y = 10, with left alignment, room up to x = 1100 and the label A. \<^verbatim>\<open>render\<close>
  styles the hint with \<^verbatim>\<open>left: 990px\<close>; its pass of \<^verbatim>\<open>moveInsideViewport\<close>
  measures the right edge at 1006.5, beyond the 1000 of the viewport, and writes
  \<^verbatim>\<open>margin-right: 7px\<close>. A box positioned by \<^verbatim>\<open>left\<close> does not move with its
  right margin, so the rectangle is the same after the pass, 6.5 pixels over the
  edge; a further pass over the hint reports a move again and leaves it there.
\<close>

theorem moveInsideViewport_left_positioned:
  "style_left (nodes rightEdgeRendered 0) = Some 990 \<and>
   style_right (nodes rightEdgeRendered 0) = None \<and>
   rects rightEdgeRendered 0 =
     Some \<lparr>rect_left = 990, rect_top = 1, rect_right = 2013 / 2, rect_bottom = 19,
           rect_width = 33 / 2, rect_height = 18\<rparr> \<and>
   style_marginRight (nodes rightEdgeRendered 0) = Some 7 \<and>
   sampleLayout (nodes rightEdgeRendered 0) =
     \<lparr>rect_left = 990, rect_top = 1, rect_right = 2013 / 2, rect_bottom = 19,
      rect_width = 33 / 2, rect_height = 18\<rparr> \<and>
   vp_width sampleViewport = 1000 \<and>
   fst (moveInsideViewport sampleBrowser [0] sampleViewport rightEdgeRendered) \<and>
   sampleLayout (nodes (snd (moveInsideViewport sampleBrowser [0] sampleViewport rightEdgeRendered)) 0) =
     \<lparr>rect_left = 990, rect_top = 1, rect_right = 2013 / 2, rect_bottom = 19,
      rect_width = 33 / 2, rect_height = 18\<rparr>"
proof -
  let ?h = "(createHintElement ''A'')\<lparr>style_left := Some 990, style_right := None,
       style_top := Some 10, style_zIndex := Some MAX_Z_INDEX\<rparr>"
  let ?c = "(createHintElement ''A'')\<lparr>style_left := Some 990, style_right := None,
       style_top := Some 10, style_zIndex := Some MAX_Z_INDEX, style_marginRight := Some 7\<rparr>"
  let ?r = "\<lparr>rect_left = 990, rect_top = 1, rect_right = 2013 / 2, rect_bottom = 19,
      rect_width = 33 / 2, rect_height = 18\<rparr> :: rect"
  have d: "documentElement (constructor True [])" "nextNode (constructor True []) = 0"
    by (simp_all add: constructor_def)
  have l: "0 < length rightEdgeTarget" "rightEdgeTarget ! 0 = targetAt 990 10 AlignLeft 1100 ''A''"
    by (simp_all add: rightEdgeTarget_def)
  have h0: "?h = ?h\<lparr>style_marginRight := None\<rparr>"
    by (simp add: createHintElement_def)
  have rh: "sampleLayout ?h = ?r"
    by (subst h0) (rule rightEdge_rect)
  have ch: "correctedNode (\<lambda>x. x) ?r sampleViewport ?h = ?c"
    by (subst h0) (rule rightEdge_corrected)
  have n: "nodes rightEdgeRendered 0 = ?c"
    using render_result(1)[OF d(1) l(1), of sampleBrowser]
    by (simp add: rightEdgeRendered_def d(2) l(2) sampleBrowser_probes rightEdge_hint rh ch)
  have c: "rects rightEdgeRendered 0 = Some ?r"
    using render_result(2)[OF d(1) l(1), of sampleBrowser]
    by (simp add: rightEdgeRendered_def d(2) l(2) sampleBrowser_probes rightEdge_hint rh)
  have rc: "sampleLayout ?c = ?r" by (rule rightEdge_rect)
  have cc: "correctedNode (\<lambda>x. x) ?r sampleViewport ?c = ?c" by (rule rightEdge_corrected)
  have x: "crosses ?r sampleViewport" by (simp add: crosses_def sampleViewport_def)
  have m: "moveInsideViewport sampleBrowser [0] sampleViewport rightEdgeRendered =
             (True, rightEdgeRendered\<lparr>rects := (rects rightEdgeRendered)(0 \<mapsto> ?r),
                                      nodes := (nodes rightEdgeRendered)(0 := ?c)\<rparr>)"
    by (simp add: moveInsideViewport_def moveInsideViewport_body_eq n rc cc x)
  have v: "vp_width sampleViewport = 1000" by (simp add: sampleViewport_def)
  show ?thesis
    by (simp add: m n c rc v)
qed

section \<open>Updating hints\<close>

lemma updateHints_unfold:
  "updateHints B updates newText s =
     finishUpdate B newText (fold (updateHints_body newText) updates (0, [], s))"
  by (simp add: updateHints_def finishUpdate_def)

lemma updateHints_body_missing:
  "hintAt s (update_index u) = None \<Longrightarrow>
     updateHints_body t u (k, m, s) = (k, m, s\<lparr>errorLog := errorLog s @ [u]\<rparr>)"
  by (simp add: updateHints_body_def)

lemma updateHints_body_present:
  "hintAt s (update_index u) = Some child \<Longrightarrow>
     updateHints_body t u (k, m, s) =
       (if is_Hide u then k + 1 else k,
        if requeued t (enteredTextChars s) u then m @ [child] else m,
        s\<lparr>nodes := (nodes s)(child := updatedHint t (enteredTextChars s) u (nodes s child))\<rparr>)"
  by (cases u; cases "nodes s child")
     (simp_all add: updateHints_body_def updateNode_def Let_def)

lemma hintAt_cong: "hints s1 = hints s \<Longrightarrow> hintAt s1 i = hintAt s i"
  by (simp add: hintAt_def)

lemma updateHints_body_frame:
  "\<exists>n l. snd (snd (updateHints_body t u (k, m, s))) = s\<lparr>nodes := n, errorLog := l\<rparr>"
proof (cases "hintAt s (update_index u)")
  case None
  have "s\<lparr>errorLog := errorLog s @ [u]\<rparr> = s\<lparr>nodes := nodes s, errorLog := errorLog s @ [u]\<rparr>"
    by simp
  then have "snd (snd (updateHints_body t u (k, m, s)))
               = s\<lparr>nodes := nodes s, errorLog := errorLog s @ [u]\<rparr>"
    by (simp add: updateHints_body_missing[OF None])
  then show ?thesis by blast
next
  case (Some child)
  let ?n = "(nodes s)(child := updatedHint t (enteredTextChars s) u (nodes s child))"
  have "s\<lparr>nodes := ?n\<rparr> = s\<lparr>nodes := ?n, errorLog := errorLog s\<rparr>" by simp
  then have "snd (snd (updateHints_body t u (k, m, s))) = s\<lparr>nodes := ?n, errorLog := errorLog s\<rparr>"
    by (simp add: updateHints_body_present[OF Some])
  then show ?thesis by blast
qed

lemma fold_updateHints_body_frame:
  "\<exists>n l. snd (snd (fold (updateHints_body t) us (k, m, s))) = s\<lparr>nodes := n, errorLog := l\<rparr>"
proof (induction us arbitrary: k m s)
  case Nil
  show ?case by (rule exI[of _ "nodes s"], rule exI[of _ "errorLog s"]) simp
next
  case (Cons u us)
  obtain k1 m1 s1 where b: "updateHints_body t u (k, m, s) = (k1, m1, s1)"
    by (metis prod_cases3)
  obtain n1 l1 where s1: "s1 = s\<lparr>nodes := n1, errorLog := l1\<rparr>"
    using updateHints_body_frame[of t u k m s] b by auto
  obtain n l where "snd (snd (fold (updateHints_body t) us (k1, m1, s1))) = s1\<lparr>nodes := n, errorLog := l\<rparr>"
    using Cons.IH by blast
  then have "snd (snd (fold (updateHints_body t) (u # us) (k, m, s))) = s\<lparr>nodes := n, errorLog := l\<rparr>"
    by (simp add: b s1)
  then show ?case by blast
qed

lemma fold_updateHints_body_fields [simp]:
  "hints (snd (snd (fold (updateHints_body t) us (k, m, s)))) = hints s"
  "timers (snd (snd (fold (updateHints_body t) us (k, m, s)))) = timers s"
  "unrenderTimeoutId (snd (snd (fold (updateHints_body t) us (k, m, s)))) = unrenderTimeoutId s"
  "rootChildren (snd (snd (fold (updateHints_body t) us (k, m, s)))) = rootChildren s"
  "enteredTextChars (snd (snd (fold (updateHints_body t) us (k, m, s)))) = enteredTextChars s"
  using fold_updateHints_body_frame[of t us k m s] by auto

lemma fold_updateHints_body_numHidden:
  "fst (fold (updateHints_body t) us (k, m, s)) =
     k + length (filter (\<lambda>u. is_Hide u \<and> hintAt s (update_index u) \<noteq> None) us)"
proof (induction us arbitrary: k m s)
  case Nil
  show ?case by simp
next
  case (Cons u us)
  obtain k1 m1 s1 where b: "updateHints_body t u (k, m, s) = (k1, m1, s1)"
    by (metis prod_cases3)
  obtain n1 l1 where s1: "s1 = s\<lparr>nodes := n1, errorLog := l1\<rparr>"
    using updateHints_body_frame[of t u k m s] b by auto
  have h: "hintAt s1 = hintAt s"
    by (rule ext, rule hintAt_cong) (simp add: s1)
  have k1: "k1 = k + (if is_Hide u \<and> hintAt s (update_index u) \<noteq> None then 1 else 0)"
  proof (cases "hintAt s (update_index u)")
    case None
    then show ?thesis using b by (simp add: updateHints_body_missing)
  next
    case (Some child)
    then show ?thesis using b by (auto simp add: updateHints_body_present)
  qed
  show ?case
    using Cons.IH[of k1 m1 s1] by (simp add: b h k1)
qed

lemma finishUpdate_fields [simp]:
  "hints (finishUpdate B t (k, m, s)) = hints s"
  "timers (finishUpdate B t (k, m, s)) = timers s"
  "unrenderTimeoutId (finishUpdate B t (k, m, s)) = unrenderTimeoutId s"
  "errorLog (finishUpdate B t (k, m, s)) = errorLog s"
  by (simp_all add: finishUpdate_def Let_def insertShruggie_def removeShruggie_def removeTitle_def
      insertTitle_def rootAppend_def rootRemove_def)

lemma finishUpdate_Shruggie:
  "Shruggie \<in> set (rootChildren (finishUpdate B t (k, m, s))) \<longleftrightarrow> k = length (hints s)"
  by (simp add: finishUpdate_def Let_def insertShruggie_def removeShruggie_def removeTitle_def
      insertTitle_def rootAppend_def rootRemove_def)

lemma updateHints_fields [simp]:
  "hints (updateHints B us t s) = hints s"
  "timers (updateHints B us t s) = timers s"
  "unrenderTimeoutId (updateHints B us t s) = unrenderTimeoutId s"
proof -
  obtain k m s1 where f: "fold (updateHints_body t) us (0, [], s) = (k, m, s1)"
    by (metis prod_cases3)
  have "hints s1 = hints s" "timers s1 = timers s" "unrenderTimeoutId s1 = unrenderTimeoutId s"
    using fold_updateHints_body_fields[of t us 0 "[]" s] by (simp_all add: f)
  then show "hints (updateHints B us t s) = hints s"
    "timers (updateHints B us t s) = timers s"
    "unrenderTimeoutId (updateHints B us t s) = unrenderTimeoutId s"
    by (simp_all add: updateHints_unfold f)
qed

lemma updateHints_Shruggie:
  "Shruggie \<in> set (rootChildren (updateHints B us t s)) \<longleftrightarrow>
     length (filter (\<lambda>u. is_Hide u \<and> hintAt s (update_index u) \<noteq> None) us) = length (hints s)"
proof -
  obtain k m s1 where f: "fold (updateHints_body t) us (0, [], s) = (k, m, s1)"
    by (metis prod_cases3)
  have h: "hints s1 = hints s"
    using fold_updateHints_body_fields(1)[of t us 0 "[]" s] by (simp add: f)
  have k: "k = length (filter (\<lambda>u. is_Hide u \<and> hintAt s (update_index u) \<noteq> None) us)"
    using fold_updateHints_body_numHidden[of t us 0 "[]" s] by (simp add: f)
  show ?thesis
    by (simp add: updateHints_unfold f finishUpdate_Shruggie h k)
qed

lemma hintAt_None_iff: "hintAt s i \<noteq> None \<longleftrightarrow> 0 \<le> i \<and> i < int (length (hints s))"
  by (simp add: hintAt_def)

lemma is_Hide_index: "is_Hide u \<Longrightarrow> u = Hide (update_index u)"
  by (cases u) simp_all

lemma all_hidden_bounds:
  assumes "distinct (map update_index us)"
  shows "length (filter (\<lambda>u. is_Hide u \<and> 0 \<le> update_index u \<and> update_index u < int N) us) = N
           \<longleftrightarrow> (\<forall>i < N. Hide (int i) \<in> set us)"
proof -
  let ?N = "N"
  let ?H = "filter (\<lambda>u. is_Hide u \<and> 0 \<le> update_index u \<and> update_index u < int N) us"
  let ?I = "set (map update_index ?H)"
  have d: "distinct (map update_index ?H)"
    using assms by (rule distinct_map_filter)
  have c: "card ?I = length ?H"
    using distinct_card[OF d] by simp
  have sub: "?I \<subseteq> int ` {0 ..< ?N}"
  proof
    fix x assume "x \<in> ?I"
    then have "0 \<le> x \<and> x < int ?N" by auto
    then have "x = int (nat x) \<and> nat x < ?N" by auto
    then show "x \<in> int ` {0 ..< ?N}" by (metis atLeastLessThan_iff image_eqI le0)
  qed
  have cn: "card (int ` {0 ..< ?N}) = ?N"
    by (simp add: card_image)
  show ?thesis
  proof
    assume "length ?H = ?N"
    then have "?I = int ` {0 ..< ?N}"
      using sub c cn by (intro card_subset_eq) simp_all
    then have m: "int i \<in> ?I" if "i < ?N" for i using that by auto
    have "Hide (int i) \<in> set us" if lt: "i < ?N" for i
    proof -
      obtain u where "u \<in> set ?H" "update_index u = int i"
        using m[OF lt] by auto
      then have "u \<in> set us" "is_Hide u" "update_index u = int i" by auto
      then show ?thesis using is_Hide_index[of u] by simp
    qed
    then show "\<forall>i < ?N. Hide (int i) \<in> set us" by blast
  next
    assume a: "\<forall>i < ?N. Hide (int i) \<in> set us"
    have "int ` {0 ..< ?N} \<subseteq> ?I"
    proof
      fix x assume "x \<in> int ` {0 ..< ?N}"
      then obtain i where i: "x = int i" "i < ?N" by auto
      then have "Hide (int i) \<in> set ?H" using a by simp
      then have "update_index (Hide (int i)) \<in> ?I" by (metis image_eqI set_map)
      then show "x \<in> ?I" using i by simp
    qed
    then have "?I = int ` {0 ..< ?N}" using sub by auto
    then show "length ?H = ?N" using c cn by simp
  qed
qed

lemma all_hidden_iff:
  assumes "distinct (map update_index us)"
  shows "length (filter (\<lambda>u. is_Hide u \<and> hintAt s (update_index u) \<noteq> None) us) = length (hints s)
           \<longleftrightarrow> (\<forall>i < length (hints s). Hide (int i) \<in> set us)"
  unfolding hintAt_None_iff using assms by (rule all_hidden_bounds)

lemma hintAt_errorLog [simp]: "hintAt (s\<lparr>errorLog := l\<rparr>) i = hintAt s i"
  by (rule hintAt_cong) simp

lemma moveInsideViewport_body_errorLog:
  "moveInsideViewport_body B vp e (m, s\<lparr>errorLog := l\<rparr>) =
     (fst (moveInsideViewport_body B vp e (m, s)),
      (snd (moveInsideViewport_body B vp e (m, s)))\<lparr>errorLog := l\<rparr>)"
  by (simp add: moveInsideViewport_body_eq)

lemma fold_moveInsideViewport_body_errorLog:
  "fold (moveInsideViewport_body B vp) es (m, s\<lparr>errorLog := l\<rparr>) =
     (fst (fold (moveInsideViewport_body B vp) es (m, s)),
      (snd (fold (moveInsideViewport_body B vp) es (m, s)))\<lparr>errorLog := l\<rparr>)"
proof (induction es arbitrary: m s)
  case Nil
  show ?case by simp
next
  case (Cons e es)
  obtain m1 s1 where b: "moveInsideViewport_body B vp e (m, s) = (m1, s1)"
    by (cases "moveInsideViewport_body B vp e (m, s)")
  show ?case
    using Cons.IH[of m1 s1] by (simp add: moveInsideViewport_body_errorLog b)
qed

lemma moveInsideViewport_errorLog:
  "snd (moveInsideViewport B es vp (s\<lparr>errorLog := l\<rparr>)) =
     (snd (moveInsideViewport B es vp s))\<lparr>errorLog := l\<rparr>"
  by (simp add: moveInsideViewport_def fold_moveInsideViewport_body_errorLog)

lemma root_steps_errorLog:
  "insertShruggie (s\<lparr>errorLog := l\<rparr>) = (insertShruggie s)\<lparr>errorLog := l\<rparr>"
  "removeShruggie (s\<lparr>errorLog := l\<rparr>) = (removeShruggie s)\<lparr>errorLog := l\<rparr>"
  "insertTitle title (s\<lparr>errorLog := l\<rparr>) = (insertTitle title s)\<lparr>errorLog := l\<rparr>"
  "removeTitle (s\<lparr>errorLog := l\<rparr>) = (removeTitle s)\<lparr>errorLog := l\<rparr>"
  by (simp_all add: insertShruggie_def removeShruggie_def removeTitle_def insertTitle_def
      rootAppend_def rootRemove_def)

lemma root_steps_hints [simp]:
  "hints (insertShruggie s) = hints s"
  "hints (removeShruggie s) = hints s"
  "hints (insertTitle title s) = hints s"
  "hints (removeTitle s) = hints s"
  by (simp_all add: insertShruggie_def removeShruggie_def removeTitle_def insertTitle_def
      rootAppend_def rootRemove_def)

lemma finishUpdate_errorLog:
  "finishUpdate B t (k, m, s\<lparr>errorLog := l\<rparr>) = (finishUpdate B t (k, m, s))\<lparr>errorLog := l\<rparr>"
  by (simp add: finishUpdate_def Let_def root_steps_errorLog moveInsideViewport_errorLog)

lemma updateHints_body_errorLog:
  assumes "hintAt s (update_index u) \<noteq> None"
  shows "updateHints_body t u (k, m, s\<lparr>errorLog := l\<rparr>) =
     (fst (updateHints_body t u (k, m, s)), fst (snd (updateHints_body t u (k, m, s))),
      (snd (snd (updateHints_body t u (k, m, s))))\<lparr>errorLog := l\<rparr>)"
proof -
  obtain child where c: "hintAt s (update_index u) = Some child" using assms by auto
  have c': "hintAt (s\<lparr>errorLog := l\<rparr>) (update_index u) = Some child"
    using c by simp
  show ?thesis
    by (simp add: updateHints_body_present[OF c] updateHints_body_present[OF c'])
qed

lemma fold_updateHints_body_skips:
  "fold (updateHints_body t) us (k, m, s\<lparr>errorLog := l\<rparr>) =
     (fst (fold (updateHints_body t) (filter (\<lambda>u. hintAt s (update_index u) \<noteq> None) us) (k, m, s)),
      fst (snd (fold (updateHints_body t) (filter (\<lambda>u. hintAt s (update_index u) \<noteq> None) us) (k, m, s))),
      (snd (snd (fold (updateHints_body t) (filter (\<lambda>u. hintAt s (update_index u) \<noteq> None) us) (k, m, s))))
        \<lparr>errorLog := l @ filter (\<lambda>u. hintAt s (update_index u) = None) us\<rparr>)"
proof (induction us arbitrary: k m s l)
  case Nil
  show ?case by simp
next
  case (Cons u us)
  show ?case
  proof (cases "hintAt s (update_index u)")
    case None
    have n': "hintAt (s\<lparr>errorLog := l\<rparr>) (update_index u) = None"
      using None by simp
    show ?thesis
      using Cons.IH[where k = k and m = m and s = s and l = "l @ [u]"] None
      by (simp add: updateHints_body_missing[OF n'])
  next
    case (Some child)
    obtain k1 m1 s1 where b: "updateHints_body t u (k, m, s) = (k1, m1, s1)"
      by (cases "updateHints_body t u (k, m, s)") auto
    obtain n1 l1 where s1: "s1 = s\<lparr>nodes := n1, errorLog := l1\<rparr>"
      using updateHints_body_frame[of t u k m s] b by auto
    have h: "hintAt s1 = hintAt s"
      by (rule ext, rule hintAt_cong) (simp add: s1)
    have p: "hintAt s (update_index u) \<noteq> None" using Some by simp
    show ?thesis
      using Cons.IH[where k = k1 and m = m1 and s = s1 and l = l] Some
      by (simp add: updateHints_body_errorLog[OF p] b h)
  qed
qed


lemma fold_updateHints_body_nodes:
  "nodes (snd (snd (fold (updateHints_body t) us (k, m, s)))) e =
     fold (updatedHint t (enteredTextChars s))
       (filter (\<lambda>u. hintAt s (update_index u) = Some e) us) (nodes s e)"
proof (induction us arbitrary: k m s)
  case Nil
  show ?case by simp
next
  case (Cons u us)
  obtain k1 m1 s1 where b: "updateHints_body t u (k, m, s) = (k1, m1, s1)"
    by (metis prod_cases3)
  obtain n1 l1 where s1: "s1 = s\<lparr>nodes := n1, errorLog := l1\<rparr>"
    using updateHints_body_frame[of t u k m s] b by auto
  have h: "hintAt s1 = hintAt s"
    by (rule ext, rule hintAt_cong) (simp add: s1)
  have c: "enteredTextChars s1 = enteredTextChars s"
    by (simp add: s1)
  have ih: "nodes (snd (snd (fold (updateHints_body t) us (k1, m1, s1)))) e =
     fold (updatedHint t (enteredTextChars s))
       (filter (\<lambda>u. hintAt s (update_index u) = Some e) us) (nodes s1 e)"
    using Cons.IH[of k1 m1 s1] by (simp add: h c)
  have n: "nodes s1 e =
     (if hintAt s (update_index u) = Some e
      then updatedHint t (enteredTextChars s) u (nodes s e) else nodes s e)"
  proof (cases "hintAt s (update_index u)")
    case None
    then show ?thesis using b by (auto simp add: updateHints_body_missing)
  next
    case (Some child)
    then show ?thesis using b by (auto simp add: updateHints_body_present)
  qed
  show ?case
    by (simp add: b ih n)
qed

lemma finishUpdate_keeps:
  "hiddenClass (nodes (finishUpdate B t (k, m, s)) e) = hiddenClass (nodes s e)"
  "highlightedClass (nodes (finishUpdate B t (k, m, s)) e) = highlightedClass (nodes s e)"
  "childNodes (nodes (finishUpdate B t (k, m, s)) e) = childNodes (nodes s e)"
  "enteredTextChars (finishUpdate B t (k, m, s)) = t"
  by (simp_all add: finishUpdate_def Let_def moveInsideViewport_keeps
      insertShruggie_def removeShruggie_def removeTitle_def insertTitle_def rootAppend_def rootRemove_def)

lemma hints_twoRendered: "hints twoRendered = [0, 1]"
proof -
  have "documentElement (constructor True [])" by (simp add: constructor_def)
  then have "hints twoRendered = map (\<lambda>j. nextNode (constructor True []) + j) [0 ..< length twoTargets]"
    unfolding twoRendered_def by (rule render_hints)
  also have "\<dots> = [0, 1]"
    by (simp add: constructor_def twoTargets_def upt_rec)
  finally show ?thesis .
qed

text \<open>
  Claim C9. \<^verbatim>\<open>updateHints\<close> has no failing path on a batch of Hide and Update
  updates: it is a total function, and it runs to its end, where it records the
  entered text. An update whose index is outside the hints array is logged and has
  no other effect: the call does what it does on the batch without those updates,
  and the log receives exactly those updates, in their order. Every other update is
  applied, wherever it stands in the batch: each hint ends with the classes and
  the children that the updates naming it give it, applied in the order of the
  batch.
\<close>

theorem updateHints_skips_missing:
  "updateHints B updates t s =
     (updateHints B (filter (\<lambda>u. hintAt s (update_index u) \<noteq> None) updates) t s)
       \<lparr>errorLog := errorLog s @ filter (\<lambda>u. hintAt s (update_index u) = None) updates\<rparr> \<and>
   errorLog (updateHints B updates t s) =
     errorLog s @ filter (\<lambda>u. hintAt s (update_index u) = None) updates \<and>
   enteredTextChars (updateHints B updates t s) = t \<and>
   (\<forall>e. hiddenClass (nodes (updateHints B updates t s) e) =
          hiddenClass (fold (updatedHint t (enteredTextChars s))
            (filter (\<lambda>u. hintAt s (update_index u) = Some e) updates) (nodes s e)) \<and>
        highlightedClass (nodes (updateHints B updates t s) e) =
          highlightedClass (fold (updatedHint t (enteredTextChars s))
            (filter (\<lambda>u. hintAt s (update_index u) = Some e) updates) (nodes s e)) \<and>
        childNodes (nodes (updateHints B updates t s) e) =
          childNodes (fold (updatedHint t (enteredTextChars s))
            (filter (\<lambda>u. hintAt s (update_index u) = Some e) updates) (nodes s e)))"
proof -
  let ?valid = "filter (\<lambda>u. hintAt s (update_index u) \<noteq> None) updates"
  let ?missing = "filter (\<lambda>u. hintAt s (update_index u) = None) updates"
  obtain k m s1 where f: "fold (updateHints_body t) ?valid (0, [], s) = (k, m, s1)"
    by (cases "fold (updateHints_body t) ?valid (0, [], s)") auto
  have "fold (updateHints_body t) updates (0, [], s\<lparr>errorLog := errorLog s\<rparr>) =
          (k, m, s1\<lparr>errorLog := errorLog s @ ?missing\<rparr>)"
    by (simp only: fold_updateHints_body_skips f fst_conv snd_conv)
  then have g: "fold (updateHints_body t) updates (0, [], s) =
          (k, m, s1\<lparr>errorLog := errorLog s @ ?missing\<rparr>)"
    by simp
  have "updateHints B updates t s =
          finishUpdate B t (k, m, s1\<lparr>errorLog := errorLog s @ ?missing\<rparr>)"
    by (simp only: updateHints_unfold g)
  also have "\<dots> = (finishUpdate B t (k, m, s1))\<lparr>errorLog := errorLog s @ ?missing\<rparr>"
    by (rule finishUpdate_errorLog)
  also have "finishUpdate B t (k, m, s1) = updateHints B ?valid t s"
    by (simp only: updateHints_unfold f)
  finally have eq: "updateHints B updates t s =
     (updateHints B ?valid t s)\<lparr>errorLog := errorLog s @ ?missing\<rparr>" .
  have lg: "errorLog (updateHints B updates t s) = errorLog s @ ?missing"
    by (subst eq) simp
  obtain k2 m2 s2 where f2: "fold (updateHints_body t) updates (0, [], s) = (k2, m2, s2)"
    by (metis prod_cases3)
  have n2: "nodes s2 e = fold (updatedHint t (enteredTextChars s))
       (filter (\<lambda>u. hintAt s (update_index u) = Some e) updates) (nodes s e)" for e
    using fold_updateHints_body_nodes[of t updates 0 "[]" s e] by (simp add: f2)
  have u: "updateHints B updates t s = finishUpdate B t (k2, m2, s2)"
    by (simp only: updateHints_unfold f2)
  have tx: "enteredTextChars (updateHints B updates t s) = t"
    by (simp only: u finishUpdate_keeps)
  have nd: "hiddenClass (nodes (updateHints B updates t s) e) =
          hiddenClass (fold (updatedHint t (enteredTextChars s))
            (filter (\<lambda>u. hintAt s (update_index u) = Some e) updates) (nodes s e)) \<and>
        highlightedClass (nodes (updateHints B updates t s) e) =
          highlightedClass (fold (updatedHint t (enteredTextChars s))
            (filter (\<lambda>u. hintAt s (update_index u) = Some e) updates) (nodes s e)) \<and>
        childNodes (nodes (updateHints B updates t s) e) =
          childNodes (fold (updatedHint t (enteredTextChars s))
            (filter (\<lambda>u. hintAt s (update_index u) = Some e) updates) (nodes s e))" for e
    by (simp only: u finishUpdate_keeps n2)
  show ?thesis
    using eq lg tx nd by blast
qed

text \<open>
  The theorem at two rendered hints and a batch of four updates, the first and the
  third for hints that do not exist: these two are logged, the second hint gets its
  matched characters and the highlight, and the first hint is hidden.
\<close>

theorem updateHints_skips_missing_witness:
  "hints twoRendered = [0, 1] \<and>
   errorLog (updateHints sampleBrowser [Hide 7, Update 1 ''B'' [] True, Hide 9, Hide 0] ''b'' twoRendered)
     = errorLog twoRendered @ [Hide 7, Hide 9] \<and>
   hiddenClass (nodes
     (updateHints sampleBrowser [Hide 7, Update 1 ''B'' [] True, Hide 9, Hide 0] ''b'' twoRendered) 0) \<and>
   \<not> hiddenClass (nodes
     (updateHints sampleBrowser [Hide 7, Update 1 ''B'' [] True, Hide 9, Hide 0] ''b'' twoRendered) 1) \<and>
   highlightedClass (nodes
     (updateHints sampleBrowser [Hide 7, Update 1 ''B'' [] True, Hide 9, Hide 0] ''b'' twoRendered) 1) \<and>
   childNodes (nodes
     (updateHints sampleBrowser [Hide 7, Update 1 ''B'' [] True, Hide 9, Hide 0] ''b'' twoRendered) 1)
     = [MatchedCharsSpan ''B'', TextNode []]"
proof -
  have h: "hintAt twoRendered 7 = None" "hintAt twoRendered 9 = None"
    "hintAt twoRendered 0 = Some 0" "hintAt twoRendered 1 = Some 1"
    by (simp_all add: hintAt_def hints_twoRendered)
  note T = updateHints_skips_missing[of sampleBrowser
        "[Hide 7, Update 1 ''B'' [] True, Hide 9, Hide 0]" "''b''" twoRendered]
  note L = T[THEN conjunct2, THEN conjunct1]
  note N = T[THEN conjunct2, THEN conjunct2, THEN conjunct2, rule_format]
  show ?thesis
    using L N[of 0] N[of 1] by (simp add: h hints_twoRendered)
qed

lemma hints_firstHidden: "hints firstHidden = [0, 1]"
  by (simp add: firstHidden_def hints_twoRendered)

text \<open>
  Claim C5, as amended. For a batch with at most one update for each index: if it
  holds a Hide update for every hint, the placeholder is shown; if it holds an
  Update for some hint, the placeholder is removed.
\<close>

theorem updateHints_placeholder:
  assumes "distinct (map update_index updates)"
  shows "((\<forall>i < length (hints s). Hide (int i) \<in> set updates)
            \<longrightarrow> Shruggie \<in> set (rootChildren (updateHints B updates t s))) \<and>
         ((\<exists>u \<in> set updates. \<not> is_Hide u \<and> hintAt s (update_index u) \<noteq> None)
            \<longrightarrow> Shruggie \<notin> set (rootChildren (updateHints B updates t s)))"
proof (intro conjI impI)
  assume "\<forall>i < length (hints s). Hide (int i) \<in> set updates"
  then show "Shruggie \<in> set (rootChildren (updateHints B updates t s))"
    using all_hidden_iff[OF assms, of s] unfolding updateHints_Shruggie by blast
next
  assume "\<exists>u \<in> set updates. \<not> is_Hide u \<and> hintAt s (update_index u) \<noteq> None"
  then obtain u where u: "u \<in> set updates" "\<not> is_Hide u" "hintAt s (update_index u) \<noteq> None"
    by blast
  have "\<not> (\<forall>i < length (hints s). Hide (int i) \<in> set updates)"
  proof
    assume a: "\<forall>i < length (hints s). Hide (int i) \<in> set updates"
    have b: "0 \<le> update_index u" "update_index u < int (length (hints s))"
      using u(3) by (simp_all only: hintAt_None_iff)
    then have "Hide (int (nat (update_index u))) \<in> set updates"
      using a by (metis nat_less_iff)
    then have h: "Hide (update_index u) \<in> set updates" using b by simp
    have inj: "inj_on update_index (set updates)"
      using assms by (simp add: distinct_map)
    have "update_index (Hide (update_index u)) = update_index u" by simp
    then have "Hide (update_index u) = u"
      using inj_onD[OF inj _ h u(1)] by blast
    then show False using u(2) by (metis is_Hide.simps(1))
  qed
  then show "Shruggie \<notin> set (rootChildren (updateHints B updates t s))"
    using all_hidden_iff[OF assms, of s] unfolding updateHints_Shruggie by blast
qed

lemma root_steps_nodes [simp]:
  "nodes (insertShruggie s) = nodes s"
  "nodes (removeShruggie s) = nodes s"
  "nodes (insertTitle title s) = nodes s"
  "nodes (removeTitle s) = nodes s"
  by (simp_all add: insertShruggie_def removeShruggie_def removeTitle_def insertTitle_def
      rootAppend_def rootRemove_def)

lemma finishUpdate_hiddenClass:
  "hiddenClass (nodes (finishUpdate B t (k, m, s)) e) = hiddenClass (nodes s e)"
  by (simp add: finishUpdate_def Let_def moveInsideViewport_keeps)

lemma hintAt_twoRendered: "hintAt twoRendered 0 = Some 0" "hintAt twoRendered 1 = Some 1"
  by (simp_all add: hintAt_def hints_twoRendered)

lemma hintAt_firstHidden: "hintAt firstHidden 0 = Some 0" "hintAt firstHidden 1 = Some 1"
  by (simp_all add: hintAt_def hints_firstHidden)

lemma hidden_firstHidden: "hiddenClass (nodes firstHidden 0)"
  by (simp add: firstHidden_def updateHints_unfold updateHints_body_def updateNode_def Let_def
      hintAt_twoRendered finishUpdate_hiddenClass)

text \<open>The theorem at two hints: hiding both, and hiding one while updating the other.\<close>

theorem updateHints_placeholder_witness:
  "distinct (map update_index [Hide 0, Hide 1]) \<and>
   hints twoRendered = [0, 1] \<and>
   Shruggie \<in> set (rootChildren (updateHints sampleBrowser [Hide 0, Hide 1] [] twoRendered)) \<and>
   distinct (map update_index [Hide 0, Update 1 [] ''B'' False]) \<and>
   hintAt twoRendered 1 = Some 1 \<and>
   Shruggie \<notin> set (rootChildren
     (updateHints sampleBrowser [Hide 0, Update 1 [] ''B'' False] ''b'' twoRendered))"
proof -
  have d1: "distinct (map update_index [Hide 0, Hide 1])" by simp
  have d2: "distinct (map update_index [Hide 0, Update 1 [] ''B'' False])" by simp
  have a: "\<forall>i < length (hints twoRendered). Hide (int i) \<in> set [Hide 0, Hide 1]"
    by (simp add: hints_twoRendered less_Suc_eq)
  have e: "\<exists>u \<in> set [Hide 0, Update 1 [] ''B'' False].
             \<not> is_Hide u \<and> hintAt twoRendered (update_index u) \<noteq> None"
    by (simp add: hintAt_twoRendered)
  show ?thesis
    using updateHints_placeholder[OF d1, of twoRendered sampleBrowser "[]"]
      updateHints_placeholder[OF d2, of twoRendered sampleBrowser "''b''"]
      a e d1 d2 hints_twoRendered hintAt_twoRendered(2)
    by blast
qed

text \<open>
  Claim C5 as it was stated fails on batches that name a hint twice: with a second
  Hide for a hint the placeholder is removed although every hint was hidden, and
  with an Update after the Hide of the same hint the placeholder is shown although
  that hint is visible.
\<close>

theorem updateHints_duplicate_updates:
  "hints twoRendered = [0, 1] \<and>
   Shruggie \<notin> set (rootChildren
     (updateHints sampleBrowser [Hide 0, Hide 1, Hide 1] [] twoRendered)) \<and>
   Shruggie \<in> set (rootChildren
     (updateHints sampleBrowser [Hide 0, Hide 1, Update 0 [] ''A'' False] [] twoRendered)) \<and>
   \<not> hiddenClass (nodes
     (updateHints sampleBrowser [Hide 0, Hide 1, Update 0 [] ''A'' False] [] twoRendered) 0)"
proof -
  have c: "hintAt (twoRendered\<lparr>nodes := n\<rparr>) i = hintAt twoRendered i" for n i
    by (rule hintAt_cong) simp
  have v: "\<not> hiddenClass (nodes
     (updateHints sampleBrowser [Hide 0, Hide 1, Update 0 [] ''A'' False] [] twoRendered) 0)"
    by (simp add: updateHints_unfold updateHints_body_def updateNode_def Let_def
        hintAt_twoRendered c finishUpdate_hiddenClass)
  show ?thesis
    by (simp add: hints_twoRendered updateHints_Shruggie hintAt_twoRendered v)
qed

text \<open>
  Claim C10, as amended. The placeholder is shown iff the Hide updates of this batch
  that name an existing hint are as many as there are hints, whatever classes the
  hints carry. So a batch with at most one update for each index that has no Hide
  for some hint removes the placeholder.
\<close>

theorem updateHints_placeholder_this_batch:
  "(Shruggie \<in> set (rootChildren (updateHints B updates t s)) \<longleftrightarrow>
      length (filter (\<lambda>u. is_Hide u \<and> hintAt s (update_index u) \<noteq> None) updates)
        = length (hints s)) \<and>
   (distinct (map update_index updates) \<and> i < length (hints s) \<and> Hide (int i) \<notin> set updates
      \<longrightarrow> Shruggie \<notin> set (rootChildren (updateHints B updates t s)))"
proof (intro conjI impI)
  show "Shruggie \<in> set (rootChildren (updateHints B updates t s)) \<longleftrightarrow>
      length (filter (\<lambda>u. is_Hide u \<and> hintAt s (update_index u) \<noteq> None) updates)
        = length (hints s)"
    by (rule updateHints_Shruggie)
next
  assume a: "distinct (map update_index updates) \<and> i < length (hints s)
               \<and> Hide (int i) \<notin> set updates"
  then have "\<not> (\<forall>i < length (hints s). Hide (int i) \<in> set updates)" by blast
  then show "Shruggie \<notin> set (rootChildren (updateHints B updates t s))"
    using a all_hidden_iff[of updates s] unfolding updateHints_Shruggie by blast
qed

text \<open>
  The theorem where an earlier batch hid the first of two hints and this batch hides
  the second: both hints carry the hidden class and the placeholder is removed.
\<close>

theorem updateHints_placeholder_this_batch_witness:
  "distinct (map update_index [Hide 1]) \<and> (0 :: nat) < length (hints firstHidden) \<and>
   Hide (int 0) \<notin> set [Hide 1] \<and>
   hiddenClass (nodes (updateHints sampleBrowser [Hide 1] [] firstHidden) 0) \<and>
   hiddenClass (nodes (updateHints sampleBrowser [Hide 1] [] firstHidden) 1) \<and>
   Shruggie \<notin> set (rootChildren (updateHints sampleBrowser [Hide 1] [] firstHidden))"
proof -
  have h: "distinct (map update_index [Hide 1]) \<and> (0 :: nat) < length (hints firstHidden)
             \<and> Hide (int 0) \<notin> set [Hide 1]"
    by (simp add: hints_firstHidden)
  have c: "hiddenClass (nodes (updateHints sampleBrowser [Hide 1] [] firstHidden) 0)"
    "hiddenClass (nodes (updateHints sampleBrowser [Hide 1] [] firstHidden) 1)"
    by (simp_all add: updateHints_unfold updateHints_body_def updateNode_def Let_def
        hintAt_firstHidden finishUpdate_hiddenClass hidden_firstHidden)
  show ?thesis
    using updateHints_placeholder_this_batch[of sampleBrowser "[Hide 1]" "[]" firstHidden 0] h c
    by blast
qed

text \<open>
  Claim C10 as it was stated fails on a batch that names a hint twice: the first
  hint was hidden earlier, the batch does not send Hide for it again, and the
  placeholder is shown.
\<close>

theorem updateHints_repeated_hide:
  "hiddenClass (nodes firstHidden 0) \<and> Hide 0 \<notin> set [Hide 1, Hide 1] \<and>
   Shruggie \<in> set (rootChildren (updateHints sampleBrowser [Hide 1, Hide 1] [] firstHidden))"
  by (simp add: hidden_firstHidden updateHints_Shruggie hintAt_firstHidden hints_firstHidden)

section \<open>Rotation, and the teardown timeouts\<close>

lemma fold_updateNode_frame:
  "\<exists>n. fold (\<lambda>(element, z). updateNode element (f z)) ps s = s\<lparr>nodes := n\<rparr>"
proof (induction ps arbitrary: s)
  case Nil
  show ?case by (rule exI[of _ "nodes s"]) simp
next
  case (Cons p ps)
  obtain e z where p: "p = (e, z)" by (cases p)
  obtain n where "fold (\<lambda>(element, z). updateNode element (f z)) ps (updateNode e (f z) s)
      = (updateNode e (f z) s)\<lparr>nodes := n\<rparr>"
    using Cons.IH by blast
  then have "fold (\<lambda>(element, z). updateNode element (f z)) (p # ps) s = s\<lparr>nodes := n\<rparr>"
    by (simp add: p updateNode_def)
  then show ?case by blast
qed

lemma rotateStack_frame: "\<exists>n. rotateStack sign stack s = s\<lparr>nodes := n\<rparr>"
proof (cases "length stack \<ge> 2")
  case True
  then show ?thesis
    using fold_updateNode_frame[of "\<lambda>z n. n\<lparr>style_zIndex := z\<rparr>"]
    by (simp add: rotateStack_def Let_def)
next
  case False
  then show ?thesis by (simp add: rotateStack_def) (rule exI[of _ "nodes s"], simp)
qed

lemma fold_rotateStack_frame: "\<exists>n. fold (rotateStack sign) stacks s = s\<lparr>nodes := n\<rparr>"
proof (induction stacks arbitrary: s)
  case Nil
  show ?case by (rule exI[of _ "nodes s"]) simp
next
  case (Cons st stacks)
  obtain n1 where a: "rotateStack sign st s = s\<lparr>nodes := n1\<rparr>"
    using rotateStack_frame by blast
  obtain n where "fold (rotateStack sign) stacks (s\<lparr>nodes := n1\<rparr>) = s\<lparr>nodes := n1\<rparr>\<lparr>nodes := n\<rparr>"
    using Cons.IH by blast
  then have "fold (rotateStack sign) (st # stacks) s = s\<lparr>nodes := n\<rparr>"
    by (simp add: a)
  then show ?case by blast
qed

lemma rotateHints_frame: "\<exists>n. rotateHints L forward s = s\<lparr>nodes := n\<rparr>"
  unfolding rotateHints_def Let_def by (rule fold_rotateStack_frame)

lemma rotateHints_fields [simp]:
  "hints (rotateHints L forward s) = hints s"
  "rects (rotateHints L forward s) = rects s"
  "timers (rotateHints L forward s) = timers s"
  "unrenderTimeoutId (rotateHints L forward s) = unrenderTimeoutId s"
  using rotateHints_frame[of L forward s] by auto

lemma render_timers [simp]:
  "timers (render B es s) = (if documentElement s then timers (unrender s) else timers s)"
  "unrenderTimeoutId (render B es s) =
     (if documentElement s then unrenderTimeoutId (unrender s) else unrenderTimeoutId s)"
proof -
  let ?N = "number B" and ?vp = "getViewport B"
  obtain s1 edge rest k where
    l: "render_loop ?N ?vp (probeHalfHeight B) (probeWidthK B) (probeWidthM B) 0 es
          (prepared B s, [], [], 0) = (s1, edge, rest, k)"
    by (metis prod_cases4)
  obtain n rc where
    "fst (render_loop ?N ?vp (probeHalfHeight B) (probeWidthK B) (probeWidthM B) 0 es
          (prepared B s, [], [], 0))
      = (prepared B s)\<lparr>nodes := n, nextNode := nextNode (prepared B s) + length es,
          rootChildren := rc,
          hints := hints (prepared B s) @ map (\<lambda>j. nextNode (prepared B s) + j) [0 ..< length es]\<rparr>"
    using render_loop_frame by blast
  then have s1: "timers s1 = timers (unrender s)" "unrenderTimeoutId s1 = unrenderTimeoutId (unrender s)"
    by (simp_all add: l)
  show "timers (render B es s) = (if documentElement s then timers (unrender s) else timers s)"
    by (simp add: render_unfold l Let_def s1 insertShruggie_def rootAppend_def)
  show "unrenderTimeoutId (render B es s) =
     (if documentElement s then unrenderTimeoutId (unrender s) else unrenderTimeoutId s)"
    by (simp add: render_unfold l Let_def s1 insertShruggie_def rootAppend_def)
qed

lemma timerInvariant_unrender:
  "timerInvariant s \<Longrightarrow> timers (unrender s) = [] \<and> unrenderTimeoutId (unrender s) = None"
  by (cases "timers s")
     (auto simp add: timerInvariant_def unrender_def clearTimeout_def split: option.splits)

lemma timerInvariant_unrenderDelayed:
  "timerInvariant s \<Longrightarrow>
     timers (unrenderDelayed s) =
       (if unrenderTimeoutId s = None then [(nextTimer s, UnrenderDelayedCallback)] else timers s) \<and>
     unrenderTimeoutId (unrenderDelayed s) =
       (if unrenderTimeoutId s = None then Some (nextTimer s) else unrenderTimeoutId s)"
  by (auto simp add: timerInvariant_def unrenderDelayed_def setTimeout_def)

lemma timerInvariant_unrenderToTitle:
  "timerInvariant s \<Longrightarrow>
     timers (unrenderToTitle title s) = [(nextTimer s, UnrenderToTitleCallback)] \<and>
     unrenderTimeoutId (unrenderToTitle title s) = Some (nextTimer s)"
  by (cases "timers s")
     (auto simp add: timerInvariant_def unrenderToTitle_def setTimeout_def clearTimeout_def
        insertTitle_def rootAppend_def Let_def split: option.splits)

lemma fold_rootRemove_timers:
  "timers (fold (\<lambda>e. rootRemove (HintNode e)) es s) = timers s \<and>
   unrenderTimeoutId (fold (\<lambda>e. rootRemove (HintNode e)) es s) = unrenderTimeoutId s"
  by (induction es arbitrary: s) (simp_all add: rootRemove_def)

lemma timerInvariant_timerFires:
  assumes "timerInvariant s"
  shows "timerInvariant (timerFires t s)"
proof (cases "map_of (timers s) t")
  case None
  then show ?thesis using assms by (simp add: timerFires_def)
next
  case (Some cb)
  then have "t \<in> fst ` set (timers s)" by (metis map_of_eq_None_iff option.distinct(1))
  then have t: "unrenderTimeoutId s = Some t \<and> map fst (timers s) = [t]"
    using assms by (auto simp add: timerInvariant_def split: option.splits)
  then have c: "timers (clearTimeout t s) = []"
    by (cases "timers s") (auto simp add: clearTimeout_def)
  show ?thesis
  proof (cases cb)
    case UnrenderDelayedCallback
    then show ?thesis using Some c
      by (simp add: timerFires_def timerInvariant_def unrender_def clearTimeout_def)
  next
    case UnrenderToTitleCallback
    then show ?thesis using Some c
      by (simp add: timerFires_def timerInvariant_def Let_def unrenderTextRects_def
          fold_rootRemove_timers)
  qed
qed

lemma timerInvariant_onMessage:
  assumes "timerInvariant s"
  shows "timerInvariant (onMessage B msg s)"
proof (cases msg)
  case FirefoxWorkaround
  then show ?thesis using assms by (simp add: timerInvariant_def sendMessage_def)
next
  case OtherMessage
  then show ?thesis using assms by simp
next
  case (ToRenderer m)
  show ?thesis
  proof (cases m)
    case StateSync
    then show ?thesis using assms ToRenderer by simp
  next
    case (Render elements)
    then show ?thesis using assms ToRenderer timerInvariant_unrender[OF assms]
      by (auto simp add: timerInvariant_def)
  next
    case (UpdateHints updates newText)
    then show ?thesis using assms ToRenderer by (simp add: timerInvariant_def)
  next
    case (RotateHints forward)
    then show ?thesis using assms ToRenderer by (simp add: timerInvariant_def)
  next
    case (RenderTextRects boxes frameId)
    then show ?thesis using assms ToRenderer
      by (simp add: timerInvariant_def renderTextRects_def unrenderTextRects_def)
  next
    case UnrenderTextRects
    then show ?thesis using assms ToRenderer
      by (simp add: timerInvariant_def unrenderTextRects_def)
  next
    case (Unrender mode)
    show ?thesis
    proof (cases mode)
      case Immediate
      then show ?thesis using Unrender ToRenderer timerInvariant_unrender[OF assms]
        by (simp add: timerInvariant_def)
    next
      case Delayed
      then show ?thesis using Unrender ToRenderer timerInvariant_unrenderDelayed[OF assms] assms
        by (auto simp add: timerInvariant_def)
    next
      case (TitleMode title)
      then show ?thesis using Unrender ToRenderer timerInvariant_unrenderToTitle[OF assms]
        by (simp add: timerInvariant_def)
    qed
  qed
qed

lemma reachable_timerInvariant: "reachable s \<Longrightarrow> timerInvariant s"
proof (induction rule: reachable.induct)
  case (reachable_constructor hasRoot containers)
  show ?case by (simp add: timerInvariant_def constructor_def)
next
  case (reachable_start s announced)
  then show ?case
    using timerInvariant_unrender[of s] by (simp add: timerInvariant_def start_def Let_def)
next
  case (reachable_stop s)
  have "timerInvariant (s\<lparr>listening := False\<rparr>)"
    using reachable_stop.IH by (simp add: timerInvariant_def)
  then show ?case
    using timerInvariant_unrender[of "s\<lparr>listening := False\<rparr>"]
    by (simp add: timerInvariant_def stop_def)
next
  case (reachable_onMessage s B m)
  then show ?case by (simp add: timerInvariant_onMessage)
next
  case (reachable_timerFires s t)
  then show ?case by (simp add: timerInvariant_timerFires)
next
  case (reachable_page s hasRoot containers)
  then show ?case by (simp add: timerInvariant_def)
qed

text \<open>
  Claim C4, as amended. In every reachable state the browser holds at most one
  teardown timeout, and it is the one the program remembers. An immediate teardown
  cancels it; a title teardown cancels it and sets its own; a delayed teardown sets
  a timeout only when none is pending, and otherwise leaves the pending one alone.
\<close>

theorem one_pending_teardown:
  assumes "reachable s"
  shows "length (timers s) \<le> 1 \<and>
         map fst (timers s) = (case unrenderTimeoutId s of None \<Rightarrow> [] | Some t \<Rightarrow> [t]) \<and>
         timers (unrender s) = [] \<and>
         timers (unrenderToTitle title s) = [(nextTimer s, UnrenderToTitleCallback)] \<and>
         timers (unrenderDelayed s) =
           (if unrenderTimeoutId s = None then [(nextTimer s, UnrenderDelayedCallback)]
            else timers s)"
proof -
  have i: "timerInvariant s" using assms by (rule reachable_timerInvariant)
  have "length (map fst (timers s)) \<le> 1"
    using i by (simp add: timerInvariant_def split: option.splits)
  then have "length (timers s) \<le> 1" by simp
  then show ?thesis
    using i timerInvariant_unrender[OF i] timerInvariant_unrenderToTitle[OF i, of title]
      timerInvariant_unrenderDelayed[OF i]
    by (simp add: timerInvariant_def)
qed

lemma pendingTitle_timers:
  "unrenderTimeoutId pendingTitle = Some 0" "timers pendingTitle = [(0, UnrenderToTitleCallback)]"
  by (simp_all add: pendingTitle_def unrenderToTitle_def constructor_def setTimeout_def
      insertTitle_def rootAppend_def Let_def)

text \<open>The theorem at a program with a pending title teardown.\<close>

theorem one_pending_teardown_witness:
  "reachable pendingTitle \<and> length (timers pendingTitle) \<le> 1 \<and>
   timers (unrender pendingTitle) = [] \<and>
   timers (unrenderToTitle ''Done'' pendingTitle) = [(nextTimer pendingTitle, UnrenderToTitleCallback)]"
proof -
  have "reachable (onMessage sampleBrowser (ToRenderer (Unrender (TitleMode ''Copied'')))
          (constructor True []))"
    by (rule reachable_onMessage) (rule reachable_constructor)
  then have r: "reachable pendingTitle" by (simp add: pendingTitle_def)
  show ?thesis
    using one_pending_teardown[OF r, of "''Done''"] r by simp
qed

text \<open>
  Claim C4 as it was stated fails for the delayed teardown: with a title teardown
  pending, \<^verbatim>\<open>unrenderDelayed\<close> returns at once, and the pending timeout is still
  the title one.
\<close>

theorem unrenderDelayed_keeps_pending_timer:
  "unrenderTimeoutId pendingTitle = Some 0 \<and>
   timers pendingTitle = [(0, UnrenderToTitleCallback)] \<and>
   unrenderDelayed pendingTitle = pendingTitle \<and>
   timers (unrenderDelayed pendingTitle) = [(0, UnrenderToTitleCallback)]"
  by (simp add: pendingTitle_timers unrenderDelayed_def)

section \<open>The rectangle cache and the overlap stacks\<close>

lemma getStackFor_loop_mset:
  "mset (fst (getStackFor_loop R e i es st)) + mset (snd (getStackFor_loop R e i es st))
     = mset st + mset es"
proof (induct R e i es st rule: getStackFor_loop.induct)
  case (1 R element index elements stack)
  show ?case
  proof (cases "index < length elements")
    case False
    then show ?thesis by (simp add: getStackFor_loop.simps[of R element index elements stack])
  next
    case True
    show ?thesis
    proof (cases "overlaps (R (elements ! index)) (R element)")
      case False
      then show ?thesis using True 1(3)
        by (simp add: getStackFor_loop.simps[of R element index elements stack])
    next
      case ov: True
      obtain sub els where
        r: "getStackFor_loop R (elements ! index) 0 (splice1 index elements) [elements ! index]
              = (sub, els)"
        by (cases "getStackFor_loop R (elements ! index) 0 (splice1 index elements)
                     [elements ! index]")
      have a: "mset sub + mset els = mset [elements ! index] + mset (splice1 index elements)"
        using 1(1)[OF True refl ov] r by simp
      have b: "mset (fst (getStackFor_loop R element index els (stack @ sub)))
                 + mset (snd (getStackFor_loop R element index els (stack @ sub)))
               = mset (stack @ sub) + mset els"
        using 1(2)[OF True refl ov r[symmetric]] .
      have "mset elements = mset (take index elements @ elements ! index # drop (Suc index) elements)"
        using id_take_nth_drop[OF True] by (rule arg_cong)
      then have c: "mset [elements ! index] + mset (splice1 index elements) = mset elements"
        by (simp add: splice1_def)
      have "getStackFor_loop R element index elements stack
              = getStackFor_loop R element index els (stack @ sub)"
        using True ov r by (simp add: getStackFor_loop.simps[of R element index elements stack])
      then have "mset (fst (getStackFor_loop R element index elements stack))
                   + mset (snd (getStackFor_loop R element index elements stack))
                 = mset (stack @ sub) + mset els"
        using b by simp
      also have "\<dots> = mset stack + (mset sub + mset els)"
        by simp
      also have "\<dots> = mset stack + mset elements"
        by (simp only: a c)
      finally show ?thesis .
    qed
  qed
qed

lemma getStacks_loop_mset:
  "mset (concat (getStacks_loop R es stacks)) = mset (concat stacks) + mset es"
proof (induct R es stacks rule: getStacks_loop.induct)
  case (1 R elements stacks)
  show ?case
  proof (cases "length elements > 0")
    case False
    then have "elements = []" by simp
    then show ?thesis by (simp add: getStacks_loop.simps[of R "[]" stacks])
  next
    case True
    obtain stack els where
      r: "getStackFor R (last elements) (butlast elements) = (stack, els)"
      by (cases "getStackFor R (last elements) (butlast elements)")
    have a: "mset stack + mset els = mset [last elements] + mset (butlast elements)"
      using getStackFor_loop_mset[of R "last elements" 0 "butlast elements" "[last elements]"] r
      by (simp add: getStackFor_def)
    have "butlast elements @ [last elements] = elements"
      using True by simp
    then have "mset (butlast elements @ [last elements]) = mset elements"
      by (rule arg_cong)
    then have b: "mset [last elements] + mset (butlast elements) = mset elements"
      by simp
    have c: "mset (concat (getStacks_loop R els (stacks @ [stack])))
               = mset (concat (stacks @ [stack])) + mset els"
      using 1[OF True r[symmetric]] .
    have "getStacks_loop R elements stacks = getStacks_loop R els (stacks @ [stack])"
      using True r by (simp add: getStacks_loop.simps[of R elements stacks])
    then have "mset (concat (getStacks_loop R elements stacks))
                 = mset (concat (stacks @ [stack])) + mset els"
      using c by simp
    also have "\<dots> = mset (concat stacks) + (mset stack + mset els)"
      by simp
    also have "\<dots> = mset (concat stacks) + mset elements"
      by (simp only: a b)
    finally show ?thesis .
  qed
qed

lemma getStacks_mset: "mset (concat (getStacks R es)) = mset es"
  by (simp add: getStacks_def getStacks_loop_mset)

lemma getStacks_pair:
  "getStacks R [a, b] = (if overlaps (R a) (R b) then [[b, a]] else [[b], [a]])"
  by (simp add: getStacks_def getStacks_loop.simps getStackFor_def getStackFor_loop.simps
      splice1_def cong: prod.case_cong_weak)

lemma leftEdge_hints:
  "renderedHint (\<lambda>x. x) sampleViewport (13 / 2) 10 0 (targetAt 10 100 AlignRight 10 ''A'') =
     (createHintElement ''A'')\<lparr>style_left := None, style_right := Some 990, style_top := Some 100,
                               style_zIndex := Some MAX_Z_INDEX\<rparr>"
  "renderedHint (\<lambda>x. x) sampleViewport (13 / 2) 10 (Suc 0) (targetAt 32 100 AlignRight 32 ''B'') =
     (createHintElement ''B'')\<lparr>style_left := None, style_right := Some 968, style_top := Some 100,
                               style_zIndex := Some (MAX_Z_INDEX - 1)\<rparr>"
proof -
  have r: "Math_round 990 = 990" "Math_round 968 = 968" "Math_round 100 = 100"
    by (rule Math_round_eq, simp, simp)+
  show "renderedHint (\<lambda>x. x) sampleViewport (13 / 2) 10 0 (targetAt 10 100 AlignRight 10 ''A'') =
     (createHintElement ''A'')\<lparr>style_left := None, style_right := Some 990, style_top := Some 100,
                               style_zIndex := Some MAX_Z_INDEX\<rparr>"
    by (simp add: renderedHint_def alignsLeft_def targetAt_def sampleViewport_def r)
  show "renderedHint (\<lambda>x. x) sampleViewport (13 / 2) 10 (Suc 0) (targetAt 32 100 AlignRight 32 ''B'') =
     (createHintElement ''B'')\<lparr>style_left := None, style_right := Some 968, style_top := Some 100,
                               style_zIndex := Some (MAX_Z_INDEX - 1)\<rparr>"
    by (simp add: renderedHint_def alignsLeft_def targetAt_def sampleViewport_def r)
qed

lemma leftEdge_rects:
  "sampleLayout ((createHintElement ''A'')\<lparr>style_left := None, style_right := Some 990,
       style_top := Some 100, style_zIndex := Some MAX_Z_INDEX\<rparr>) =
     \<lparr>rect_left = - (13 / 2), rect_top = 91, rect_right = 10, rect_bottom = 109,
      rect_width = 33 / 2, rect_height = 18\<rparr>"
  "sampleLayout ((createHintElement ''A'')\<lparr>style_left := None, style_right := Some 990,
       style_top := Some 100, style_zIndex := Some MAX_Z_INDEX, style_marginRight := Some (- 6)\<rparr>) =
     \<lparr>rect_left = - (1 / 2), rect_top = 91, rect_right = 16, rect_bottom = 109,
      rect_width = 33 / 2, rect_height = 18\<rparr>"
  "sampleLayout ((createHintElement ''B'')\<lparr>style_left := None, style_right := Some 968,
       style_top := Some 100, style_zIndex := Some (MAX_Z_INDEX - 1)\<rparr>) =
     \<lparr>rect_left = 31 / 2, rect_top = 91, rect_right = 32, rect_bottom = 109,
      rect_width = 33 / 2, rect_height = 18\<rparr>"
  by (simp_all add: sampleLayout_def createHintElement_def px_def textLength_def Let_def)

lemma leftEdge_corrected:
  "correctedNode (\<lambda>x. x)
     \<lparr>rect_left = - (13 / 2), rect_top = 91, rect_right = 10, rect_bottom = 109,
      rect_width = 33 / 2, rect_height = 18\<rparr> sampleViewport
     ((createHintElement ''A'')\<lparr>style_left := None, style_right := Some 990,
       style_top := Some 100, style_zIndex := Some MAX_Z_INDEX\<rparr>) =
   (createHintElement ''A'')\<lparr>style_left := None, style_right := Some 990,
       style_top := Some 100, style_zIndex := Some MAX_Z_INDEX, style_marginRight := Some (- 6)\<rparr>"
  "correctedNode (\<lambda>x. x)
     \<lparr>rect_left = 31 / 2, rect_top = 91, rect_right = 32, rect_bottom = 109,
      rect_width = 33 / 2, rect_height = 18\<rparr> sampleViewport
     ((createHintElement ''B'')\<lparr>style_left := None, style_right := Some 968,
       style_top := Some 100, style_zIndex := Some (MAX_Z_INDEX - 1)\<rparr>) =
   (createHintElement ''B'')\<lparr>style_left := None, style_right := Some 968,
       style_top := Some 100, style_zIndex := Some (MAX_Z_INDEX - 1)\<rparr>"
proof -
  have r: "Math_round (- (13 / 2)) = - 6" by (rule Math_round_eq) simp_all
  show "correctedNode (\<lambda>x. x)
     \<lparr>rect_left = - (13 / 2), rect_top = 91, rect_right = 10, rect_bottom = 109,
      rect_width = 33 / 2, rect_height = 18\<rparr> sampleViewport
     ((createHintElement ''A'')\<lparr>style_left := None, style_right := Some 990,
       style_top := Some 100, style_zIndex := Some MAX_Z_INDEX\<rparr>) =
   (createHintElement ''A'')\<lparr>style_left := None, style_right := Some 990,
       style_top := Some 100, style_zIndex := Some MAX_Z_INDEX, style_marginRight := Some (- 6)\<rparr>"
    by (simp add: correctedNode_def sampleViewport_def r createHintElement_def)
  show "correctedNode (\<lambda>x. x)
     \<lparr>rect_left = 31 / 2, rect_top = 91, rect_right = 32, rect_bottom = 109,
      rect_width = 33 / 2, rect_height = 18\<rparr> sampleViewport
     ((createHintElement ''B'')\<lparr>style_left := None, style_right := Some 968,
       style_top := Some 100, style_zIndex := Some (MAX_Z_INDEX - 1)\<rparr>) =
   (createHintElement ''B'')\<lparr>style_left := None, style_right := Some 968,
       style_top := Some 100, style_zIndex := Some (MAX_Z_INDEX - 1)\<rparr>"
    by (rule correctedNode_uncrossed) (simp add: crosses_def sampleViewport_def)
qed

text \<open>
  Claim C7 fails on the code at hints that \<^verbatim>\<open>moveInsideViewport\<close> has moved. A
  fresh program renders two targets with right alignment, at x = 10 and at x = 32,
  with the labels A and B. The first hint hangs 6.5 pixels over the left edge; the
  pass measures it, caches that rectangle, and then moves the hint 6 pixels to the
  right. The cache keeps the rectangle of before the move, which ends at 10 and is
  clear of the second hint, that begins at 15.5; on the screen the first hint now
  ends at 16 and overlaps the second. Grouped with the cache the two hints are two
  stacks and \<^verbatim>\<open>rotateHints\<close> changes nothing; grouped by measurement, as
  \<^verbatim>\<open>getStackFor\<close> does for a hint that is not in the cache, they are one stack
  and \<^verbatim>\<open>rotateHints\<close> swaps them.
\<close>

theorem getStacks_depends_on_cache:
  "hints leftEdgeRendered = [0, 1] \<and>
   rects leftEdgeRendered 0 =
     Some \<lparr>rect_left = - (13 / 2), rect_top = 91, rect_right = 10, rect_bottom = 109,
           rect_width = 33 / 2, rect_height = 18\<rparr> \<and>
   style_marginRight (nodes leftEdgeRendered 0) = Some (- 6) \<and>
   sampleLayout (nodes leftEdgeRendered 0) =
     \<lparr>rect_left = - (1 / 2), rect_top = 91, rect_right = 16, rect_bottom = 109,
      rect_width = 33 / 2, rect_height = 18\<rparr> \<and>
   rects leftEdgeRendered 1 =
     Some \<lparr>rect_left = 31 / 2, rect_top = 91, rect_right = 32, rect_bottom = 109,
           rect_width = 33 / 2, rect_height = 18\<rparr> \<and>
   sampleLayout (nodes leftEdgeRendered 1) =
     \<lparr>rect_left = 31 / 2, rect_top = 91, rect_right = 32, rect_bottom = 109,
      rect_width = 33 / 2, rect_height = 18\<rparr> \<and>
   \<not> overlaps (rectFor sampleLayout leftEdgeRendered 0) (rectFor sampleLayout leftEdgeRendered 1) \<and>
   overlaps (sampleLayout (nodes leftEdgeRendered 0)) (sampleLayout (nodes leftEdgeRendered 1)) \<and>
   getStacks (rectFor sampleLayout leftEdgeRendered) (hints leftEdgeRendered) = [[1], [0]] \<and>
   getStacks (rectFor sampleLayout (leftEdgeRendered\<lparr>rects := Map.empty\<rparr>))
     (hints (leftEdgeRendered\<lparr>rects := Map.empty\<rparr>)) = [[1, 0]] \<and>
   rotateHints sampleLayout True leftEdgeRendered = leftEdgeRendered \<and>
   rotateHints sampleLayout True (leftEdgeRendered\<lparr>rects := Map.empty\<rparr>)
     \<noteq> leftEdgeRendered\<lparr>rects := Map.empty\<rparr>"
proof -
  let ?a = "(createHintElement ''A'')\<lparr>style_left := None, style_right := Some 990,
       style_top := Some 100, style_zIndex := Some MAX_Z_INDEX\<rparr>"
  let ?a' = "(createHintElement ''A'')\<lparr>style_left := None, style_right := Some 990,
       style_top := Some 100, style_zIndex := Some MAX_Z_INDEX, style_marginRight := Some (- 6)\<rparr>"
  let ?b = "(createHintElement ''B'')\<lparr>style_left := None, style_right := Some 968,
       style_top := Some 100, style_zIndex := Some (MAX_Z_INDEX - 1)\<rparr>"
  let ?ra = "\<lparr>rect_left = - (13 / 2), rect_top = 91, rect_right = 10, rect_bottom = 109,
      rect_width = 33 / 2, rect_height = 18\<rparr> :: rect"
  let ?ra' = "\<lparr>rect_left = - (1 / 2), rect_top = 91, rect_right = 16, rect_bottom = 109,
      rect_width = 33 / 2, rect_height = 18\<rparr> :: rect"
  let ?rb = "\<lparr>rect_left = 31 / 2, rect_top = 91, rect_right = 32, rect_bottom = 109,
      rect_width = 33 / 2, rect_height = 18\<rparr> :: rect"
  let ?s = leftEdgeRendered
  have d: "documentElement (constructor True [])" "nextNode (constructor True []) = 0"
    by (simp_all add: constructor_def)
  have l: "0 < length leftEdgeTargets" "Suc 0 < length leftEdgeTargets"
    "leftEdgeTargets ! 0 = targetAt 10 100 AlignRight 10 ''A''"
    "leftEdgeTargets ! Suc 0 = targetAt 32 100 AlignRight 32 ''B''"
    "length leftEdgeTargets = 2"
    by (simp_all add: leftEdgeTargets_def)
  have h: "hints ?s = [0, 1]"
    using render_hints[OF d(1), of sampleBrowser leftEdgeTargets]
    by (simp add: leftEdgeRendered_def d(2) l(5) upt_rec)
  have n0: "nodes ?s 0 = ?a'"
    using render_result(1)[OF d(1) l(1), of sampleBrowser]
    by (simp add: leftEdgeRendered_def d(2) l(3) sampleBrowser_probes leftEdge_hints leftEdge_rects
        leftEdge_corrected)
  have c0: "rects ?s 0 = Some ?ra"
    using render_result(2)[OF d(1) l(1), of sampleBrowser]
    by (simp add: leftEdgeRendered_def d(2) l(3) sampleBrowser_probes leftEdge_hints leftEdge_rects)
  have n1: "nodes ?s (Suc 0) = ?b"
    using render_result(1)[OF d(1) l(2), of sampleBrowser]
    by (simp add: leftEdgeRendered_def d(2) l(4) sampleBrowser_probes leftEdge_hints leftEdge_rects
        leftEdge_corrected)
  have c1: "rects ?s (Suc 0) = Some ?rb"
    using render_result(2)[OF d(1) l(2), of sampleBrowser]
    by (simp add: leftEdgeRendered_def d(2) l(4) sampleBrowser_probes leftEdge_hints leftEdge_rects)
  have R: "rectFor sampleLayout ?s 0 = ?ra" "rectFor sampleLayout ?s (Suc 0) = ?rb"
    by (simp_all add: rectFor_def c0 c1)
  have R': "rectFor sampleLayout (?s\<lparr>rects := Map.empty\<rparr>) 0 = ?ra'"
    "rectFor sampleLayout (?s\<lparr>rects := Map.empty\<rparr>) (Suc 0) = ?rb"
    by (simp_all add: rectFor_def n0 n1 leftEdge_rects)
  have g: "getStacks (rectFor sampleLayout ?s) (hints ?s) = [[1], [0]]"
    by (simp add: h getStacks_pair R overlaps_def)
  have g': "getStacks (rectFor sampleLayout (?s\<lparr>rects := Map.empty\<rparr>))
              (hints (?s\<lparr>rects := Map.empty\<rparr>)) = [[1, 0]]"
    by (simp add: h getStacks_pair R' overlaps_def)
  have r: "rotateHints sampleLayout True ?s = ?s"
    by (simp add: rotateHints_def g rotateStack_def)
  have z: "style_zIndex (nodes (rotateHints sampleLayout True (?s\<lparr>rects := Map.empty\<rparr>)) 0)
             = Some (MAX_Z_INDEX - 1)"
    using g' by (simp add: rotateHints_def rotateStack_def zIndexNumber_def updateNode_def n0 n1)
  have "style_zIndex (nodes (?s\<lparr>rects := Map.empty\<rparr>) 0) = Some MAX_Z_INDEX"
    by (simp add: n0)
  then have r': "rotateHints sampleLayout True (?s\<lparr>rects := Map.empty\<rparr>) \<noteq> ?s\<lparr>rects := Map.empty\<rparr>"
    using z by (metis option.inject diff_add_cancel add_cancel_left_right zero_neq_one)
  have gs: "getStacks (rectFor sampleLayout ?s) [0, Suc 0] = [[Suc 0], [0]]"
    using g by (simp add: h)
  have gs': "getStacks (rectFor sampleLayout (?s\<lparr>rects := Map.empty\<rparr>)) [0, Suc 0] = [[Suc 0, 0]]"
    using g' by (simp add: h)
  have o: "\<not> overlaps (rectFor sampleLayout ?s 0) (rectFor sampleLayout ?s (Suc 0))"
    "overlaps (sampleLayout (nodes ?s 0)) (sampleLayout (nodes ?s (Suc 0)))"
    by (simp_all add: R n0 n1 leftEdge_rects overlaps_def)
  show ?thesis
    using r' o by (simp add: h n0 c0 n1 c1 leftEdge_rects gs gs' r)
qed

text \<open>
  Claim C3 fails on the code. The four hints of \<open>chainState\<close> are one overlap
  cluster, but \<^verbatim>\<open>getStackFor\<close> skips hint 2: when the recursive call for hint 1
  has spliced hint 0 out of the shared array, hint 2 has moved below the caller's
  index. The stacks are \<open>[3, 1, 0]\<close> and \<open>[2]\<close>, and one rotation gives hint 3, the
  lowest, the index of hint 1 and not that of hint 2, the next-lowest.
\<close>

theorem rotateHints_splits_cluster:
  "overlaps (chainRect 0) (chainRect 1) \<and> overlaps (chainRect 1) (chainRect 3) \<and>
   overlaps (chainRect 3) (chainRect 2) \<and>
   hints chainState = [0, 1, 2, 3] \<and>
   rectFor sampleLayout chainState 0 = chainRect 0 \<and>
   rectFor sampleLayout chainState 1 = chainRect 1 \<and>
   rectFor sampleLayout chainState 2 = chainRect 2 \<and>
   rectFor sampleLayout chainState 3 = chainRect 3 \<and>
   getStacks (rectFor sampleLayout chainState) (hints chainState) = [[3, 1, 0], [2]] \<and>
   style_zIndex (nodes chainState 3) = Some 2147483644 \<and>
   style_zIndex (nodes chainState 2) = Some 2147483645 \<and>
   style_zIndex (nodes chainState 1) = Some 2147483646 \<and>
   style_zIndex (nodes chainState 0) = Some 2147483647 \<and>
   style_zIndex (nodes (rotateHints sampleLayout True chainState) 3) = Some 2147483646 \<and>
   style_zIndex (nodes (rotateHints sampleLayout True chainState) 2) = Some 2147483645 \<and>
   style_zIndex (nodes (rotateHints sampleLayout True chainState) 1) = Some 2147483647 \<and>
   style_zIndex (nodes (rotateHints sampleLayout True chainState) 0) = Some 2147483644"
proof -
  have R: "rectFor sampleLayout chainState
             = (\<lambda>e. if e < 4 then chainRect e else sampleLayout (nodes chainState e))"
    by (rule ext) (simp add: rectFor_def chainState_def constructor_def)
  have h: "hints chainState = [0, 1, 2, 3]"
    by (simp add: chainState_def constructor_def)
  have g: "getStacks (rectFor sampleLayout chainState) [0, 1, 2, 3] = [[3, 1, 0], [2]]"
    unfolding R
    by (simp add: getStacks_def getStacks_loop.simps getStackFor_def getStackFor_loop.simps
        splice1_def overlaps_def chainRect_def cong: prod.case_cong_weak)
  have o: "overlaps (chainRect 0) (chainRect 1)" "overlaps (chainRect 1) (chainRect 3)"
    "overlaps (chainRect 3) (chainRect 2)"
    by (simp_all add: overlaps_def chainRect_def)
  have z: "style_zIndex (nodes chainState e) = Some (MAX_Z_INDEX - int e)" for e
    by (simp add: chainState_def constructor_def)
  have rot: "style_zIndex (nodes (rotateHints sampleLayout True chainState) 3) = Some 2147483646"
    "style_zIndex (nodes (rotateHints sampleLayout True chainState) 2) = Some 2147483645"
    "style_zIndex (nodes (rotateHints sampleLayout True chainState) 1) = Some 2147483647"
    "style_zIndex (nodes (rotateHints sampleLayout True chainState) 0) = Some 2147483644"
    using g
    by (simp_all add: rotateHints_def rotateStack_def h z zIndexNumber_def updateNode_def
        MAX_Z_INDEX_def)
  show ?thesis
    using o g rot by (simp add: h R z MAX_Z_INDEX_def)
qed

end
